theory Spec2Isabelle
  imports Complex_Main "HOL-Library.Product_Lexorder"
begin

section \<open>Python strings\<close>

text \<open>
  A character of a Python \<open>str\<close> is a code point; the type \<open>char\<close> holds the code
  points below 256, so a \<open>string\<close> is a Python string over that range. The
  character classes are those of \<open>str.isspace\<close>, \<open>str.isalpha\<close>, \<open>str.isupper\<close> and
  \<open>str.islower\<close> on these code points: the whitespace characters include the next
  line control (133) and the no-break space (160), and the letters include the
  accented ones from 192 on and the three letters 170, 181 and 186.
\<close>

definition py_isspace :: "char \<Rightarrow> bool" where
  "py_isspace c = (let n = (of_char c :: nat) in
     (9 \<le> n \<and> n \<le> 13) \<or> (28 \<le> n \<and> n \<le> 32) \<or> n = 133 \<or> n = 160)"

definition py_isupper :: "char \<Rightarrow> bool" where
  "py_isupper c = (let n = (of_char c :: nat) in
     (65 \<le> n \<and> n \<le> 90) \<or> (192 \<le> n \<and> n \<le> 214) \<or> (216 \<le> n \<and> n \<le> 222))"

definition py_islower :: "char \<Rightarrow> bool" where
  "py_islower c = (let n = (of_char c :: nat) in
     (97 \<le> n \<and> n \<le> 122) \<or> n = 170 \<or> n = 181 \<or> n = 186
     \<or> (223 \<le> n \<and> n \<le> 246) \<or> (248 \<le> n \<and> n \<le> 255))"

definition py_isalpha :: "char \<Rightarrow> bool" where
  "py_isalpha c = (py_isupper c \<or> py_islower c)"

text \<open>
  \<open>s.lower()\<close> stays within the range. \<open>s.upper()\<close> and \<open>s.title()\<close> do not: the
  uppercase of the sharp s (223) is the two letters \<open>SS\<close>, and the uppercase of the
  micro sign (181) and of the y with diaeresis (255) are the code points 924 and
  376. Their results are therefore lists of code points.
\<close>

type_synonym codepoints = "nat list"

definition codepoints :: "string \<Rightarrow> codepoints" where
  "codepoints s = map of_char s"

definition lower_char :: "char \<Rightarrow> char" where
  "lower_char c = (if py_isupper c then char_of ((of_char c :: nat) + 32) else c)"

definition upper_char :: "char \<Rightarrow> codepoints" where
  "upper_char c = (let n = (of_char c :: nat) in
     if n = 181 then [924]
     else if n = 223 then [83, 83]
     else if n = 255 then [376]
     else if (97 \<le> n \<and> n \<le> 122) \<or> (224 \<le> n \<and> n \<le> 246) \<or> (248 \<le> n \<and> n \<le> 254)
       then [n - 32]
     else [n])"

definition title_char :: "char \<Rightarrow> codepoints" where
  "title_char c = (if (of_char c :: nat) = 223 then [83, 115] else upper_char c)"

definition py_upper :: "string \<Rightarrow> codepoints" where
  "py_upper s = concat (map upper_char s)"

definition py_lower :: "string \<Rightarrow> string" where
  "py_lower s = map lower_char s"

text \<open>\<open>s.strip()\<close>: whitespace removed at both ends.\<close>

definition py_strip :: "string \<Rightarrow> string" where
  "py_strip s = rev (dropWhile py_isspace (rev (dropWhile py_isspace s)))"

text \<open>\<open>s.split(c)\<close> for a one-character separator: every piece, the empty ones too.\<close>

fun py_split :: "char \<Rightarrow> string \<Rightarrow> string list" where
  "py_split c [] = [[]]"
| "py_split c (x # xs) =
     (if x = c then [] # py_split c xs
      else (case py_split c xs of [] \<Rightarrow> [[x]] | w # ws \<Rightarrow> (x # w) # ws))"

text \<open>\<open>s.split(c, 1)\<close> when \<open>c\<close> occurs in \<open>s\<close>: the text before and after the first \<open>c\<close>.\<close>

definition py_split1 :: "char \<Rightarrow> string \<Rightarrow> string \<times> string" where
  "py_split1 c s = (takeWhile (\<lambda>x. x \<noteq> c) s, drop 1 (dropWhile (\<lambda>x. x \<noteq> c) s))"

text \<open>
  \<open>int(s)\<close> in base ten. The whitespace that \<open>int\<close> ignores at both ends is not that
  of \<open>strip\<close>: the separators 28 to 31 are not ignored. One sign is allowed, the
  digits are \<open>0\<close> to \<open>9\<close>, and single underscores may separate digits. The
  interpreter refuses a number with more digits than its limit
  \<open>max_str_digits\<close> when that limit is not zero and the number has more than 640
  digits; the limit is a parameter (4300 unless the interpreter is configured
  otherwise, 0 for none). \<open>None\<close> stands for \<open>ValueError\<close>.
\<close>

definition int_isspace :: "char \<Rightarrow> bool" where
  "int_isspace c = (let n = (of_char c :: nat) in
     (9 \<le> n \<and> n \<le> 13) \<or> n = 32 \<or> n = 133 \<or> n = 160)"

definition is_decimal :: "char \<Rightarrow> bool" where
  "is_decimal c = (let n = (of_char c :: nat) in 48 \<le> n \<and> n \<le> 57)"

definition digit_of :: "char \<Rightarrow> int" where
  "digit_of c = int (of_char c) - 48"

text \<open>The value of a run of digits and underscores, and the number of its digits.\<close>

fun digits_val :: "int \<Rightarrow> nat \<Rightarrow> string \<Rightarrow> (int \<times> nat) option" where
  "digits_val acc count [] = Some (acc, count)"
| "digits_val acc count (c # cs) =
     (if is_decimal c then digits_val (10 * acc + digit_of c) (Suc count) cs
      else if c = CHR ''_'' then
        (case cs of [] \<Rightarrow> None
         | d # _ \<Rightarrow> if is_decimal d then digits_val acc count cs else None)
      else None)"

definition py_digits :: "nat \<Rightarrow> string \<Rightarrow> int option" where
  "py_digits max_str_digits s = (case s of [] \<Rightarrow> None
     | c # _ \<Rightarrow>
         if is_decimal c then
           (case digits_val 0 0 s of None \<Rightarrow> None
            | Some (v, count) \<Rightarrow>
                if max_str_digits > 0 \<and> count > 640 \<and> count > max_str_digits then None
                else Some v)
         else None)"

definition py_int :: "nat \<Rightarrow> string \<Rightarrow> int option" where
  "py_int max_str_digits s =
     (case rev (dropWhile int_isspace (rev (dropWhile int_isspace s))) of [] \<Rightarrow> None
      | c # r \<Rightarrow> if c = CHR ''-'' then map_option uminus (py_digits max_str_digits r)
               else if c = CHR ''+'' then py_digits max_str_digits r
               else py_digits max_str_digits (c # r))"

section \<open>Page collection operations\<close>

text \<open>
  \<open>PdfOpError\<close> is the single error class of the module; the constructors are its
  messages. A document is the list of its pages. Opening the bytes and
  serialising the result are the PDF library's work: the functions take the pages
  of the opened source, and the serialiser is a parameter that is applied to the
  pages of the output document.
\<close>

datatype field = RangeStart | RangeEnd | Page | OrderItem

datatype PdfOpError =
    NoPages
  | PagesRequired
  | OrderRequired
  | NotInteger field
  | NotPositive field
  | RangeEndBeforeStart
  | PageOutOfBounds int nat
  | OrderWrongLength nat
  | OrderOutOfBounds int nat
  | OrderDuplicates

definition parse_positive_int :: "nat \<Rightarrow> string \<Rightarrow> field \<Rightarrow> PdfOpError + int" where
  "parse_positive_int max_str_digits v name =
     (case py_int max_str_digits v of None \<Rightarrow> Inl (NotInteger name)
      | Some parsed \<Rightarrow> if parsed \<le> 0 then Inl (NotPositive name) else Inr parsed)"

text \<open>\<open>[p.strip() for p in cleaned.split(",") if p.strip()]\<close>\<close>

definition comma_parts :: "string \<Rightarrow> string list" where
  "comma_parts cleaned = filter (\<lambda>p. p \<noteq> []) (map py_strip (py_split CHR '','' cleaned))"

text \<open>The inner loop \<open>for one_based in range(start, end + 1)\<close> of \<open>parse_page_ranges\<close>.\<close>

fun add_range :: "nat \<Rightarrow> int list \<Rightarrow> int set \<Rightarrow> PdfOpError + int set" where
  "add_range page_count [] indices = Inr indices"
| "add_range page_count (one_based # rest) indices =
     (let idx = one_based - 1 in
      if idx < 0 \<or> idx \<ge> int page_count then Inl (PageOutOfBounds one_based page_count)
      else add_range page_count rest (insert idx indices))"

fun ranges_loop :: "nat \<Rightarrow> nat \<Rightarrow> string list \<Rightarrow> int set \<Rightarrow> PdfOpError + int set" where
  "ranges_loop max_str_digits page_count [] indices = Inr indices"
| "ranges_loop max_str_digits page_count (part # parts) indices =
     (if CHR ''-'' \<in> set part then
        (let (start_s, end_s) = py_split1 CHR ''-'' part in
         case parse_positive_int max_str_digits (py_strip start_s) RangeStart of Inl e \<Rightarrow> Inl e
         | Inr start \<Rightarrow>
         (case parse_positive_int max_str_digits (py_strip end_s) RangeEnd of Inl e \<Rightarrow> Inl e
          | Inr end \<Rightarrow>
            if end < start then Inl RangeEndBeforeStart
            else (case add_range page_count [start..end] indices of Inl e \<Rightarrow> Inl e
                  | Inr indices' \<Rightarrow> ranges_loop max_str_digits page_count parts indices')))
      else
        (case parse_positive_int max_str_digits part Page of Inl e \<Rightarrow> Inl e
         | Inr one_based \<Rightarrow>
           let idx = one_based - 1 in
           if idx < 0 \<or> idx \<ge> int page_count then Inl (PageOutOfBounds one_based page_count)
           else ranges_loop max_str_digits page_count parts (insert idx indices)))"

definition parse_page_ranges :: "nat \<Rightarrow> string \<Rightarrow> nat \<Rightarrow> PdfOpError + int set" where
  "parse_page_ranges max_str_digits pages page_count =
     (if page_count \<le> 0 then Inl NoPages
      else let cleaned = py_strip pages in
        if cleaned = [] then Inl PagesRequired
        else ranges_loop max_str_digits page_count (comma_parts cleaned) {})"

fun reorder_loop ::
  "nat \<Rightarrow> nat \<Rightarrow> string list \<Rightarrow> int list \<Rightarrow> int set \<Rightarrow> PdfOpError + int list" where
  "reorder_loop max_str_digits page_count [] result seen = Inr result"
| "reorder_loop max_str_digits page_count (part # parts) result seen =
     (case parse_positive_int max_str_digits part OrderItem of Inl e \<Rightarrow> Inl e
      | Inr one_based \<Rightarrow>
        let idx = one_based - 1 in
        if idx < 0 \<or> idx \<ge> int page_count then Inl (OrderOutOfBounds one_based page_count)
        else if idx \<in> seen then Inl OrderDuplicates
        else reorder_loop max_str_digits page_count parts (result @ [idx]) (insert idx seen))"

definition parse_reorder :: "nat \<Rightarrow> string \<Rightarrow> nat \<Rightarrow> PdfOpError + int list" where
  "parse_reorder max_str_digits order page_count =
     (if page_count \<le> 0 then Inl NoPages
      else let cleaned = py_strip order in
        if cleaned = [] then Inl OrderRequired
        else let parts = comma_parts cleaned in
          if length parts \<noteq> page_count then Inl (OrderWrongLength page_count)
          else reorder_loop max_str_digits page_count parts [] {})"

text \<open>
  \<open>out.insert_pdf(src, from_page=idx, to_page=idx)\<close> appends page \<open>idx\<close> of the source.
  Both callers pass indices that lie in \<open>range(page_count)\<close>.
\<close>

definition insert_pdf :: "'p list \<Rightarrow> 'p list \<Rightarrow> int \<Rightarrow> 'p list" where
  "insert_pdf out src idx = out @ [src ! nat idx]"

text \<open>
  What a page operation can raise: the module's \<open>PdfOpError\<close>, or the
  \<open>ValueError\<close> with which the library's \<open>tobytes\<close> refuses to save a document that
  has no page.
\<close>

datatype raised = PdfOp PdfOpError | ValueError

definition tobytes :: "('p list \<Rightarrow> 'b) \<Rightarrow> 'p list \<Rightarrow> raised + 'b" where
  "tobytes serialise out = (if out = [] then Inl ValueError else Inr (serialise out))"

definition reorder_pages :: "nat \<Rightarrow> ('p list \<Rightarrow> 'b) \<Rightarrow> 'p list \<Rightarrow> string \<Rightarrow> raised + 'b" where
  "reorder_pages max_str_digits serialise src order =
     (case parse_reorder max_str_digits order (length src) of Inl e \<Rightarrow> Inl (PdfOp e)
      | Inr page_order \<Rightarrow>
          tobytes serialise (foldl (\<lambda>out idx. insert_pdf out src idx) [] page_order))"

definition remove_pages :: "nat \<Rightarrow> ('p list \<Rightarrow> 'b) \<Rightarrow> 'p list \<Rightarrow> string \<Rightarrow> raised + 'b" where
  "remove_pages max_str_digits serialise src pages =
     (case parse_page_ranges max_str_digits pages (length src) of Inl e \<Rightarrow> Inl (PdfOp e)
      | Inr to_remove \<Rightarrow>
          tobytes serialise
            (foldl (\<lambda>out idx. if int idx \<in> to_remove then out else insert_pdf out src (int idx))
               [] [0..<length src]))"

text \<open>
  The order string as the interface describes it: the comma-separated, 1-based
  entries, each read as an integer where it is one. \<open>valid_permutation\<close> is
  the interface's condition on them: as many entries as pages, every entry a page
  number of the document, no entry twice.
\<close>

definition order_entries :: "nat \<Rightarrow> string \<Rightarrow> int option list" where
  "order_entries max_str_digits order = map (py_int max_str_digits) (comma_parts (py_strip order))"

definition valid_permutation :: "int option list \<Rightarrow> nat \<Rightarrow> bool" where
  "valid_permutation entries n =
     (length entries = n
      \<and> list_all (\<lambda>e. case e of None \<Rightarrow> False | Some k \<Rightarrow> 1 \<le> k \<and> k \<le> int n) entries
      \<and> distinct entries)"

definition entry_ok :: "nat \<Rightarrow> nat \<Rightarrow> string \<Rightarrow> bool" where
  "entry_ok max_str_digits n p = (case py_int max_str_digits p of None \<Rightarrow> False | Some k \<Rightarrow> 1 \<le> k \<and> k \<le> int n)"

definition entry_idx :: "nat \<Rightarrow> string \<Rightarrow> int" where
  "entry_idx max_str_digits p = the (py_int max_str_digits p) - 1"

section \<open>Case normalisation of the replacement\<close>

text \<open>
  \<open>re.split(r"\s+", s)\<close>: the pieces of \<open>s\<close> between maximal runs of whitespace,
  an empty piece where \<open>s\<close> starts or ends with whitespace. The accumulator holds
  the current piece in reverse; the flag says that the previous character was
  whitespace.
\<close>

fun re_split_ws_acc :: "string \<Rightarrow> bool \<Rightarrow> string \<Rightarrow> string list" where
  "re_split_ws_acc cur in_ws [] = [rev cur]"
| "re_split_ws_acc cur in_ws (c # cs) =
     (if py_isspace c then
        (if in_ws then re_split_ws_acc cur True cs else rev cur # re_split_ws_acc [] True cs)
      else re_split_ws_acc (c # cur) False cs)"

definition re_split_ws :: "string \<Rightarrow> string list" where
  "re_split_ws s = re_split_ws_acc [] False s"

text \<open>
  \<open>s.title()\<close>: a character that follows a cased character is lowercased, any
  other character is titlecased; both leave what is not a letter as it is. On
  the code points below 256 the cased characters are the letters.
\<close>

fun title_from :: "bool \<Rightarrow> string \<Rightarrow> codepoints" where
  "title_from previous_is_cased [] = []"
| "title_from previous_is_cased (c # cs) =
     (if previous_is_cased then [of_char (lower_char c)] else title_char c)
     @ title_from (py_isalpha c) cs"

definition py_title :: "string \<Rightarrow> codepoints" where
  "py_title s = title_from False s"

text \<open>\<open>w.index(ch)\<close> for a character that occurs in \<open>w\<close>.\<close>

definition py_index :: "string \<Rightarrow> char \<Rightarrow> nat" where
  "py_index w ch = length (takeWhile (\<lambda>x. x \<noteq> ch) w)"

text \<open>The inner function \<open>is_title_word\<close> of \<open>_match_replacement_case\<close>.\<close>

definition is_title_word :: "string \<Rightarrow> bool" where
  "is_title_word w =
     (let w_letters = filter py_isalpha w in
      if w_letters = [] then True
      else (case find py_isalpha w of None \<Rightarrow> True
            | Some first \<Rightarrow>
                py_isupper first
                \<and> list_all (\<lambda>ch. \<not> py_isalpha ch \<or> py_islower ch) (drop (py_index w first + 1) w)))"

definition match_replacement_case :: "string \<Rightarrow> string \<Rightarrow> codepoints" where
  "match_replacement_case original replacement =
     (if replacement = [] then codepoints replacement
      else let o' = py_strip original in
        if o' = [] then codepoints replacement
        else let letters = filter py_isalpha o' in
          if letters = [] then codepoints replacement
          else if list_all py_isupper letters then py_upper replacement
          else if list_all py_islower letters then codepoints (py_lower replacement)
          else let words = filter (\<lambda>w. w \<noteq> []) (re_split_ws o') in
            if words \<noteq> [] \<and> list_all is_title_word words then py_title replacement
            else codepoints replacement)"

text \<open>
  The title pattern in the words of the specification: a word that starts with an
  uppercase letter, followed by only lowercase letters.
\<close>

definition spec_title_word :: "string \<Rightarrow> bool" where
  "spec_title_word w = (case w of [] \<Rightarrow> False | c # r \<Rightarrow> py_isupper c \<and> list_all py_islower r)"

text \<open>
  The title pattern of the code, stated on the word itself: its first letter, when
  it has one, is uppercase, and every letter after that one is lowercase.
\<close>

definition first_upper_rest_lower :: "string \<Rightarrow> bool" where
  "first_upper_rest_lower w =
     (case dropWhile (\<lambda>ch. \<not> py_isalpha ch) w of [] \<Rightarrow> True
      | c # r \<Rightarrow> py_isupper c \<and> list_all (\<lambda>ch. py_isalpha ch \<longrightarrow> py_islower ch) r)"

section \<open>Rectangles and fonts of the PDF library\<close>

text \<open>
  Coordinates, sizes and measured widths are Python floats; they are modelled as
  real numbers, so that rounding is left out. A rectangle has the four
  coordinates of the library's \<open>Rect\<close>; its derived properties are given as the
  library documents them: \<open>width\<close> and \<open>height\<close> are the non-negative extents, a
  rectangle is empty when it has no interior, it is false as a condition when all
  four coordinates are zero, and two rectangles intersect when neither is empty
  or infinite and their common part is not empty.
\<close>

record Rect =
  x0 :: real
  y0 :: real
  x1 :: real
  y1 :: real


definition width :: "Rect \<Rightarrow> real" where
  "width r = max 0 (x1 r - x0 r)"

definition height :: "Rect \<Rightarrow> real" where
  "height r = max 0 (y1 r - y0 r)"

definition rect_bool :: "Rect \<Rightarrow> bool" where
  "rect_bool r = (\<not> (x0 r = 0 \<and> y0 r = 0 \<and> x1 r = 0 \<and> y1 r = 0))"

definition is_empty :: "Rect \<Rightarrow> bool" where
  "is_empty r = (x0 r \<ge> x1 r \<or> y0 r \<ge> y1 r)"

definition is_infinite :: "Rect \<Rightarrow> bool" where
  "is_infinite r = (x0 r = - 2147483648 \<and> y0 r = - 2147483648
                    \<and> x1 r = 2147483520 \<and> y1 r = 2147483520)"

definition intersects :: "Rect \<Rightarrow> Rect \<Rightarrow> bool" where
  "intersects a b =
     (if is_empty a \<or> is_infinite a \<or> is_empty b \<or> is_infinite b then False
      else \<not> is_empty \<lparr>x0 = max (x0 a) (x0 b), y0 = max (y0 a) (y0 b),
                         x1 = min (x1 a) (x1 b), y1 = min (y1 a) (y1 b)\<rparr>)"

text \<open>
  A call of the library either raises or returns. A font object offers its
  \<open>descender\<close> (absent when the object has no such attribute) and \<open>has_glyph\<close>,
  which returns the glyph number of a code point, zero when the font has none.
  The constructor \<open>fitz.Font\<close> is a parameter of the model: it is given either a
  font file or a font name.
\<close>

datatype 'a attempt = Raises | Returns 'a

record Font =
  descender :: "real option"
  has_glyph :: "nat \<Rightarrow> int attempt"

datatype font_source = FontFile string | FontName string

type_synonym fitz_Font = "font_source \<Rightarrow> Font attempt"

section \<open>Baseline and tracking\<close>




definition should_use_distributed_insertion ::
  "Rect \<Rightarrow> string \<Rightarrow> string \<Rightarrow> real \<Rightarrow> real \<Rightarrow> real \<Rightarrow> bool" where
  "should_use_distributed_insertion rect original_text replacement_text
       measured_replacement measured_original fontsize =
     (if fontsize < 12 then False
      else if replacement_text = [] \<or> length replacement_text \<le> 2 then False
      else if measured_replacement \<le> 0 then False
      else let rect_w = max 1 (width rect - 1);
               repl_fill = rect_w / measured_replacement in
        if repl_fill < 1.20 then False
        else let orig = py_strip original_text;
                 repl = py_strip replacement_text in
          if orig = [] then False
          else if list_ex py_isspace orig \<noteq> list_ex py_isspace repl then False
          else if measured_original \<le> 0 then False
          else let orig_fill = rect_w / measured_original in
            if orig_fill < 1.10 then False
            else let lo = max 1 (length orig);
                     ratio = real (length repl) / real lo in
              if ratio < 0.65 \<or> ratio > 1.35 then False
              else True)"

text \<open>
  The decision in the words of the specification. Inner whitespace is whitespace
  that is not at either end of the string, that is, whitespace of the stripped
  string; the lengths are those of the strings as they are given.
\<close>

definition spec_tracking :: "Rect \<Rightarrow> string \<Rightarrow> string \<Rightarrow> real \<Rightarrow> real \<Rightarrow> real \<Rightarrow> bool" where
  "spec_tracking rect original_text replacement_text measured_replacement measured_original fontsize =
     (fontsize \<ge> 12
      \<and> length replacement_text > 2
      \<and> (width rect - 1) / measured_replacement \<ge> 1.20
      \<and> (width rect - 1) / measured_original \<ge> 1.10
      \<and> list_ex py_isspace (py_strip original_text) = list_ex py_isspace (py_strip replacement_text)
      \<and> 0.65 \<le> real (length replacement_text) / real (length original_text)
      \<and> real (length replacement_text) / real (length original_text) \<le> 1.35)"

section \<open>Glyph coverage\<close>

text \<open>
  The cache of font objects is a dictionary keyed by \<open>(fontfile, fontname)\<close>.
  \<open>_get_font_obj\<close> returns the cached object, or constructs one, stores it and
  returns it; a failing constructor leaves the cache as it was.
\<close>

type_synonym font_cache = "string \<times> string \<rightharpoonup> Font"

definition font_key :: "string \<Rightarrow> string option \<Rightarrow> string \<times> string" where
  "font_key fontname fontfile =
     (case fontfile of None \<Rightarrow> [] | Some p \<Rightarrow> p,
      if py_strip fontname = [] then ''helv'' else py_strip fontname)"

definition get_font_obj ::
  "fitz_Font \<Rightarrow> string \<Rightarrow> string option \<Rightarrow> font_cache \<Rightarrow> (Font \<times> font_cache) attempt" where
  "get_font_obj mk_font fontname fontfile cache =
     (let key = font_key fontname fontfile in
      case cache key of Some got \<Rightarrow> Returns (got, cache)
      | None \<Rightarrow>
        (case (if fst key \<noteq> [] then mk_font (FontFile (fst key)) else mk_font (FontName (snd key))) of
           Raises \<Rightarrow> Raises
         | Returns f \<Rightarrow> Returns (f, cache(key \<mapsto> f))))"

text \<open>
  The loop of \<open>_font_supports_text\<close> over the characters. The caller's cache is
  optional; without one every character gets a fresh dictionary. The result is
  the answer together with the caller's cache after the call. The parameter
  \<open>fontsize\<close> of the source is not used by it and is left out.
\<close>

fun supports_loop ::
  "fitz_Font \<Rightarrow> string \<Rightarrow> string option \<Rightarrow> font_cache option \<Rightarrow> string \<Rightarrow> bool \<times> font_cache option" where
  "supports_loop mk_font fontname fontfile font_cache [] = (True, font_cache)"
| "supports_loop mk_font fontname fontfile font_cache (ch # rest) =
     (if py_isspace ch then supports_loop mk_font fontname fontfile font_cache rest
      else
        let cp = (of_char ch :: nat);
            cache = (case font_cache of None \<Rightarrow> Map.empty | Some c \<Rightarrow> c) in
        case get_font_obj mk_font (if fontname = [] then ''helv'' else fontname) fontfile cache of
          Raises \<Rightarrow> (False, font_cache)
        | Returns (f, cache') \<Rightarrow>
          (let font_cache' = (case font_cache of None \<Rightarrow> None | Some c \<Rightarrow> Some cache') in
           case has_glyph f cp of
             Raises \<Rightarrow> (False, font_cache')
           | Returns has \<Rightarrow>
               if has = 0 then (False, font_cache')
               else supports_loop mk_font fontname fontfile font_cache' rest))"

definition font_supports_text ::
  "fitz_Font \<Rightarrow> string \<Rightarrow> string \<Rightarrow> string option \<Rightarrow> font_cache option \<Rightarrow> bool \<times> font_cache option" where
  "font_supports_text mk_font text fontname fontfile font_cache =
     (if text = [] then (True, font_cache)
      else if fontfile = None \<or> fontfile = Some [] then (True, font_cache)
      else supports_loop mk_font fontname fontfile font_cache text)"

text \<open>
  The font program that the check consults for a font file: the object cached
  for the key when there is one, else what the constructor gives for the file.
  A character maps to a glyph in it when the program could be obtained and
  \<open>has_glyph\<close> returns a glyph number other than zero.
\<close>

definition font_program :: "fitz_Font \<Rightarrow> string \<Rightarrow> string \<Rightarrow> font_cache option \<Rightarrow> Font attempt" where
  "font_program mk_font fontname path font_cache =
     (case (case font_cache of None \<Rightarrow> None
            | Some c \<Rightarrow> c (font_key (if fontname = [] then ''helv'' else fontname) (Some path))) of
        Some f \<Rightarrow> Returns f
      | None \<Rightarrow> mk_font (FontFile path))"

definition maps_to_glyph :: "Font attempt \<Rightarrow> char \<Rightarrow> bool" where
  "maps_to_glyph program ch =
     (case program of Raises \<Rightarrow> False
      | Returns f \<Rightarrow> (case has_glyph f (of_char ch) of Raises \<Rightarrow> False | Returns g \<Rightarrow> g \<noteq> 0))"

text \<open>
  A small font environment for concrete evaluation: the file \<open>a.ttf\<close> holds a
  font with a glyph for the letter \<open>a\<close> only; nothing else can be loaded.
\<close>

definition demo_fonts :: fitz_Font where
  "demo_fonts src =
     (if src = FontFile ''a.ttf''
      then Returns \<lparr>descender = Some (- 0.2), has_glyph = (\<lambda>cp. Returns (if cp = 97 then 1 else 0))\<rparr>
      else Raises)"

section \<open>Region merger\<close>

text \<open>
  The test of \<open>_merge_close_rects\<close> that two rectangles are on the same line: their
  vertical overlap is at least 0.3 of \<open>min_h\<close>, or their vertical centres are less
  than 0.8 of \<open>min_h\<close> apart, where \<open>min_h\<close> is the smaller height but at least 1.
\<close>

definition same_line :: "Rect \<Rightarrow> Rect \<Rightarrow> bool" where
  "same_line lst r =
     (let v_overlap = max 0 (min (y1 lst) (y1 r) - max (y0 lst) (y0 r));
          min_h = max 1 (min (height lst) (height r));
          same = (v_overlap / min_h \<ge> 0.3);
          c1 = (y0 lst + y1 lst) / 2;
          c2 = (y0 r + y1 r) / 2
      in if \<bar>c1 - c2\<bar> < min_h * 0.8 then True else same)"

text \<open>The rectangle that replaces \<open>merged[-1]\<close> when \<open>r\<close> is merged into it.\<close>

definition bounding :: "Rect \<Rightarrow> Rect \<Rightarrow> Rect" where
  "bounding lst r =
     \<lparr>x0 = min (x0 lst) (x0 r), y0 = min (y0 lst) (y0 r),
      x1 = max (x1 lst) (x1 r), y1 = max (y1 lst) (y1 r)\<rparr>"

text \<open>One round of the loop \<open>for r in cleaned\<close>.\<close>

definition merge_step :: "Rect list \<Rightarrow> Rect \<Rightarrow> Rect list" where
  "merge_step merged r =
     (if merged = [] then [r]
      else let lst = last merged in
        if intersects lst r \<or> same_line lst r then butlast merged @ [bounding lst r]
        else merged @ [r])"

definition pad_rect :: "Rect \<Rightarrow> Rect" where
  "pad_rect r =
     (let h = height r;
          pad_x = max 2 (h * 0.15);
          pad_y = max 1 (h * 0.08)
      in \<lparr>x0 = x0 r - pad_x, y0 = y0 r - pad_y, x1 = x1 r + pad_x, y1 = y1 r + pad_y\<rparr>)"

text \<open>The sort key \<open>(r.y0, r.x0)\<close>; pairs are compared lexicographically, and the sort is stable.\<close>

definition sort_rects :: "Rect list \<Rightarrow> Rect list" where
  "sort_rects cleaned = sort_key (\<lambda>r. (y0 r, x0 r)) cleaned"

text \<open>The list \<open>merged\<close> at the end of the loop, before the padding.\<close>

definition merged_rects :: "Rect list \<Rightarrow> Rect list" where
  "merged_rects rects = foldl merge_step [] (sort_rects (filter rect_bool rects))"

definition merge_close_rects :: "Rect list \<Rightarrow> Rect list" where
  "merge_close_rects rects = (if rects = [] then [] else map pad_rect (merged_rects rects))"

text \<open>
  The padding that \<open>_expand_rect_to_word\<close> puts around the bounding box of the word
  it expands a match to.
\<close>

definition pad_word_rect :: "Rect \<Rightarrow> Rect" where
  "pad_word_rect wrect =
     (let h = max 1 (height wrect);
          pad_x = max 1.5 (h * 0.10);
          pad_y = max 1 (h * 0.06)
      in \<lparr>x0 = x0 wrect - pad_x, y0 = y0 wrect - pad_y,
          x1 = x1 wrect + pad_x, y1 = y1 wrect + pad_y\<rparr>)"

text \<open>Rectangle \<open>b\<close> covers rectangle \<open>a\<close>.\<close>

definition rect_contains :: "Rect \<Rightarrow> Rect \<Rightarrow> bool" where
  "rect_contains b a = (x0 b \<le> x0 a \<and> y0 b \<le> y0 a \<and> x1 a \<le> x1 b \<and> y1 a \<le> y1 b)"

text \<open>
  The same-line test in the words of the specification: the rectangles intersect,
  or their vertical overlap divided by the smaller height is at least 0.3, or
  their vertical centres differ by less than 0.8 times the smaller height.
\<close>

definition spec_same_line :: "Rect \<Rightarrow> Rect \<Rightarrow> bool" where
  "spec_same_line a b =
     (intersects a b
      \<or> max 0 (min (y1 a) (y1 b) - max (y0 a) (y0 b)) / min (height a) (height b) \<ge> 0.3
      \<or> \<bar>(y0 a + y1 a) / 2 - (y0 b + y1 b) / 2\<bar> < 0.8 * min (height a) (height b))"

section \<open>Font file resolution and the built-in tier\<close>

text \<open>\<open>s.startswith(k)\<close> and the substring test \<open>k in s\<close>.\<close>

fun starts_with :: "string \<Rightarrow> string \<Rightarrow> bool" where
  "starts_with s [] = True"
| "starts_with [] (k # ks) = False"
| "starts_with (c # cs) (k # ks) = (c = k \<and> starts_with cs ks)"

fun py_in :: "string \<Rightarrow> string \<Rightarrow> bool" where
  "py_in k [] = (k = [])"
| "py_in k (c # cs) = (starts_with (c # cs) k \<or> py_in k cs)"

text \<open>\<open>any(k in s for k in keys)\<close>\<close>

definition any_in :: "string list \<Rightarrow> string \<Rightarrow> bool" where
  "any_in keys s = list_ex (\<lambda>k. py_in k s) keys"

definition infer_bold_italic :: "string \<Rightarrow> bool \<times> bool" where
  "infer_bold_italic fontname =
     (let name = py_lower fontname;
          is_bold = any_in [''bold'', ''black'', ''heavy'', ''semibold'', ''demibold''] name;
          is_italic = any_in [''italic'', ''oblique'', ''slanted''] name;
          is_bold = (if \<not> is_bold \<and> any_in [''cmbx'', ''cmssbx'', ''cmssb'', ''cmb''] name
                     then True else is_bold);
          is_italic = (if \<not> is_italic \<and> any_in [''cmti'', ''cmsl''] name then True else is_italic)
      in (is_bold, is_italic))"

text \<open>The inner function \<open>pick\<close> of \<open>_map_font_to_base14\<close>.\<close>

definition pick_base14 :: "bool \<Rightarrow> bool \<Rightarrow> string \<Rightarrow> string" where
  "pick_base14 is_bold is_italic family =
     (if family = ''times'' then
        (if is_bold \<and> is_italic then ''Times-BoldItalic''
         else if is_bold then ''Times-Bold''
         else if is_italic then ''Times-Italic''
         else ''Times-Roman'')
      else if family = ''helv'' then
        (if is_bold \<and> is_italic then ''Helvetica-BoldOblique''
         else if is_bold then ''Helvetica-Bold''
         else if is_italic then ''Helvetica-Oblique''
         else ''Helvetica'')
      else if family = ''cour'' then
        (if is_bold \<and> is_italic then ''Courier-BoldOblique''
         else if is_bold then ''Courier-Bold''
         else if is_italic then ''Courier-Oblique''
         else ''Courier'')
      else ''Helvetica'')"

definition map_font_to_base14 :: "string \<Rightarrow> string option" where
  "map_font_to_base14 fontname =
     (if fontname = [] then None
      else let name = py_lower fontname;
               (is_bold, is_italic) = infer_bold_italic name in
        if any_in [''cmr'', ''cmbx'', ''cmti'', ''cmsl'', ''cmu''] name then
          (let is_bold = (if py_in ''cmbx'' name then True else is_bold);
               is_italic = (if any_in [''cmti'', ''cmsl''] name then True else is_italic)
           in Some (pick_base14 is_bold is_italic ''times''))
        else if py_in ''cmss'' name then
          (let is_bold = (if any_in [''cmssbx'', ''cmssb''] name then True else is_bold)
           in Some (pick_base14 is_bold is_italic ''helv''))
        else if py_in ''cmtt'' name then Some (pick_base14 is_bold is_italic ''cour'')
        else if py_in ''times'' name \<or> py_in ''timenewroman'' name \<or> py_in ''timesnewroman'' name
          then Some (pick_base14 is_bold is_italic ''times'')
        else if py_in ''courier'' name \<or> py_in ''consolas'' name \<or> py_in ''monospace'' name
          then Some (pick_base14 is_bold is_italic ''cour'')
        else if any_in [''helvetica'', ''arial'', ''calibri'', ''verdana'', ''tahoma'', ''sans''] name
          then Some (pick_base14 is_bold is_italic ''helv'')
        else None)"

definition normalize_fontname :: "string \<Rightarrow> string" where
  "normalize_fontname fontname =
     (let name = py_strip fontname;
          name = (if starts_with name ''/'' then drop 1 name else name);
          name = (if CHR ''+'' \<in> set name then snd (py_split1 CHR ''+'' name) else name)
      in py_lower (py_strip name))"

text \<open>
  What the resolver reads from its surroundings: the operating system's name, the
  environment variables, which paths are files, which paths are absolute, how two
  path components are joined, the request's uploaded-font directories (the
  context variable \<open>_EXTRA_FONT_DIRS\<close>) and the bundled font directory when it
  exists (the result of \<open>_bundled_fonts_dir\<close>).
\<close>

record os_env =
  os_name :: string
  environ :: "string \<Rightarrow> string option"
  isfile :: "string \<Rightarrow> bool"
  isabs :: "string \<Rightarrow> bool"
  path_join :: "string \<Rightarrow> string \<Rightarrow> string"
  extra_font_dirs :: "string list"
  bundled_fonts_dir :: "string option"

text \<open>The path that \<open>_windows_font_path\<close> tests for a file name, and the function itself.\<close>

definition windows_font_file :: "os_env \<Rightarrow> string \<Rightarrow> string" where
  "windows_font_file env filename =
     (let default_dir = ''C:'' @ [CHR 0x5C] @ ''Windows'';
          win_dir = (case environ env ''WINDIR'' of None \<Rightarrow> default_dir
                     | Some w \<Rightarrow> if w = [] then default_dir else w)
      in path_join env (path_join env win_dir ''Fonts'') filename)"

definition windows_font_path :: "os_env \<Rightarrow> string \<Rightarrow> string option" where
  "windows_font_path env filename =
     (let path = windows_font_file env filename
      in if isfile env path then Some path else None)"

definition first_existing :: "os_env \<Rightarrow> string list \<Rightarrow> string option" where
  "first_existing env paths = find (\<lambda>p. p \<noteq> [] \<and> isfile env p) paths"

text \<open>The loop of \<open>_custom_fonts_dirs_with_source\<close> that removes repeated directories.\<close>

fun dedup_dirs :: "string list \<Rightarrow> (string \<times> string) list \<Rightarrow> (string \<times> string) list" where
  "dedup_dirs seen [] = []"
| "dedup_dirs seen ((d, src) # pairs) =
     (if d \<noteq> [] \<and> d \<notin> set seen then (d, src) # dedup_dirs (d # seen) pairs
      else dedup_dirs seen pairs)"

definition custom_fonts_dirs_with_source :: "os_env \<Rightarrow> (string \<times> string) list" where
  "custom_fonts_dirs_with_source env =
     (let uploaded = map (\<lambda>d. (d, ''uploaded'')) (filter (\<lambda>d. d \<noteq> []) (extra_font_dirs env));
          env_dir = py_strip (case environ env ''PDF_EDITOR_FONTS_DIR'' of None \<Rightarrow> [] | Some v \<Rightarrow> v);
          custom = (if env_dir \<noteq> [] then [(env_dir, ''custom'')] else []);
          bundled = (case bundled_fonts_dir env of None \<Rightarrow> []
                     | Some b \<Rightarrow> if b \<noteq> [] then [(b, ''bundled'')] else [])
      in dedup_dirs [] (uploaded @ custom @ bundled))"

definition cm_table :: "bool \<times> bool \<Rightarrow> string list" where
  "cm_table key =
     (if key = (False, False) then
        [''cmunrm.ttf'', ''cmunr.ttf'', ''lmroman10-regular.otf'', ''lmroman10-regular.ttf'']
      else if key = (True, False) then
        [''cmunbx.ttf'', ''cmunb.ttf'', ''lmroman10-bold.otf'', ''lmroman10-bold.ttf'']
      else if key = (False, True) then
        [''cmunit.ttf'', ''cmunri.ttf'', ''lmroman10-italic.otf'', ''lmroman10-italic.ttf'']
      else
        [''cmunbi.ttf'', ''cmunbxo.ttf'', ''lmroman10-bolditalic.otf'', ''lmroman10-bolditalic.ttf''])"

text \<open>The list \<open>paths\<close> that \<open>_try_computer_modern_fontfile\<close> builds, and the function itself.\<close>

definition computer_modern_paths :: "os_env \<Rightarrow> bool \<Rightarrow> bool \<Rightarrow> string list" where
  "computer_modern_paths env bold italic =
     (let candidates = cm_table (bold, italic);
          search_dirs = map fst (custom_fonts_dirs_with_source env)
            @ [''/usr/share/texmf/fonts/opentype/public/lm'',
               ''/usr/share/texmf/fonts/truetype/public/cm-unicode'',
               ''/usr/share/fonts/opentype/latin-modern'',
               ''/usr/share/fonts/truetype/cmu''];
          search_dirs = (case environ env ''WINDIR'' of None \<Rightarrow> search_dirs
                         | Some win_dir \<Rightarrow>
                             if win_dir \<noteq> [] then search_dirs @ [path_join env win_dir ''Fonts'']
                             else search_dirs);
          paths = concat (map (\<lambda>d. map (\<lambda>fname. path_join env d fname) candidates) search_dirs)
                  @ filter (isabs env) candidates
      in paths)"

definition try_computer_modern_fontfile :: "os_env \<Rightarrow> bool \<Rightarrow> bool \<Rightarrow> string option" where
  "try_computer_modern_fontfile env bold italic =
     first_existing env (computer_modern_paths env bold italic)"

definition serif_table :: "bool \<times> bool \<Rightarrow> string list" where
  "serif_table key =
     (if key = (False, False) then
        [''/usr/share/fonts/truetype/dejavu/DejaVuSerif.ttf'',
         ''/usr/share/fonts/truetype/liberation2/LiberationSerif-Regular.ttf'',
         ''/usr/share/fonts/truetype/liberation/LiberationSerif-Regular.ttf'']
      else if key = (True, False) then
        [''/usr/share/fonts/truetype/dejavu/DejaVuSerif-Bold.ttf'',
         ''/usr/share/fonts/truetype/liberation2/LiberationSerif-Bold.ttf'',
         ''/usr/share/fonts/truetype/liberation/LiberationSerif-Bold.ttf'']
      else if key = (False, True) then
        [''/usr/share/fonts/truetype/dejavu/DejaVuSerif-Italic.ttf'',
         ''/usr/share/fonts/truetype/liberation2/LiberationSerif-Italic.ttf'',
         ''/usr/share/fonts/truetype/liberation/LiberationSerif-Italic.ttf'']
      else
        [''/usr/share/fonts/truetype/dejavu/DejaVuSerif-BoldItalic.ttf'',
         ''/usr/share/fonts/truetype/liberation2/LiberationSerif-BoldItalic.ttf'',
         ''/usr/share/fonts/truetype/liberation/LiberationSerif-BoldItalic.ttf''])"

definition sans_table :: "bool \<times> bool \<Rightarrow> string list" where
  "sans_table key =
     (if key = (False, False) then
        [''/usr/share/fonts/truetype/dejavu/DejaVuSans.ttf'',
         ''/usr/share/fonts/truetype/liberation2/LiberationSans-Regular.ttf'',
         ''/usr/share/fonts/truetype/liberation/LiberationSans-Regular.ttf'']
      else if key = (True, False) then
        [''/usr/share/fonts/truetype/dejavu/DejaVuSans-Bold.ttf'',
         ''/usr/share/fonts/truetype/liberation2/LiberationSans-Bold.ttf'',
         ''/usr/share/fonts/truetype/liberation/LiberationSans-Bold.ttf'']
      else if key = (False, True) then
        [''/usr/share/fonts/truetype/dejavu/DejaVuSans-Oblique.ttf'',
         ''/usr/share/fonts/truetype/liberation2/LiberationSans-Italic.ttf'',
         ''/usr/share/fonts/truetype/liberation/LiberationSans-Italic.ttf'']
      else
        [''/usr/share/fonts/truetype/dejavu/DejaVuSans-BoldOblique.ttf'',
         ''/usr/share/fonts/truetype/liberation2/LiberationSans-BoldItalic.ttf'',
         ''/usr/share/fonts/truetype/liberation/LiberationSans-BoldItalic.ttf''])"

definition mono_table :: "bool \<times> bool \<Rightarrow> string list" where
  "mono_table key =
     (if key = (False, False) then
        [''/usr/share/fonts/truetype/dejavu/DejaVuSansMono.ttf'',
         ''/usr/share/fonts/truetype/liberation2/LiberationMono-Regular.ttf'',
         ''/usr/share/fonts/truetype/liberation/LiberationMono-Regular.ttf'']
      else if key = (True, False) then
        [''/usr/share/fonts/truetype/dejavu/DejaVuSansMono-Bold.ttf'',
         ''/usr/share/fonts/truetype/liberation2/LiberationMono-Bold.ttf'',
         ''/usr/share/fonts/truetype/liberation/LiberationMono-Bold.ttf'']
      else if key = (False, True) then
        [''/usr/share/fonts/truetype/dejavu/DejaVuSansMono-Oblique.ttf'',
         ''/usr/share/fonts/truetype/liberation2/LiberationMono-Italic.ttf'',
         ''/usr/share/fonts/truetype/liberation/LiberationMono-Italic.ttf'']
      else
        [''/usr/share/fonts/truetype/dejavu/DejaVuSansMono-BoldOblique.ttf'',
         ''/usr/share/fonts/truetype/liberation2/LiberationMono-BoldItalic.ttf'',
         ''/usr/share/fonts/truetype/liberation/LiberationMono-BoldItalic.ttf''])"

text \<open>The choice among four file names by weight and slant, as each Windows family makes it.\<close>

definition style_file :: "bool \<Rightarrow> bool \<Rightarrow> string \<Rightarrow> string \<Rightarrow> string \<Rightarrow> string \<Rightarrow> string" where
  "style_file is_bold is_italic bold_italic bold italic regular =
     (if is_bold \<and> is_italic then bold_italic
      else if is_bold then bold
      else if is_italic then italic
      else regular)"

definition windows_family :: "os_env \<Rightarrow> bool \<Rightarrow> bool \<Rightarrow> string \<Rightarrow> string \<Rightarrow> string \<Rightarrow> string \<Rightarrow> string option" where
  "windows_family env is_bold is_italic bold_italic bold italic regular =
     windows_font_path env (style_file is_bold is_italic bold_italic bold italic regular)"

definition try_system_fontfile_native :: "os_env \<Rightarrow> string \<Rightarrow> bool option \<Rightarrow> bool option \<Rightarrow> string option" where
  "try_system_fontfile_native env fontname bold italic =
     (let raw = py_lower fontname;
          norm = normalize_fontname fontname in
      if norm = [] then None
      else let (inferred_bold, inferred_italic) = infer_bold_italic raw;
               is_bold = (case bold of Some b \<Rightarrow> b | None \<Rightarrow> inferred_bold);
               is_italic = (case italic of Some i \<Rightarrow> i | None \<Rightarrow> inferred_italic);
               cm = (if any_in [''cmr'', ''cmbx'', ''cmti'', ''cmsl'', ''cmu''] norm
                     then try_computer_modern_fontfile env is_bold is_italic else None)
        in if cm \<noteq> None \<and> cm \<noteq> Some [] then cm
        else if os_name env = ''nt'' then
          (if any_in [''times'', ''newroman'', ''timesnewroman''] norm then
             windows_family env is_bold is_italic ''timesbi.ttf'' ''timesbd.ttf'' ''timesi.ttf'' ''times.ttf''
           else if any_in [''arial'', ''helvetica''] norm then
             windows_family env is_bold is_italic ''arialbi.ttf'' ''arialbd.ttf'' ''ariali.ttf'' ''arial.ttf''
           else if py_in ''calibri'' norm then
             windows_family env is_bold is_italic ''calibriz.ttf'' ''calibrib.ttf'' ''calibrii.ttf'' ''calibri.ttf''
           else None)
        else
          (let fam = (if any_in [''courier'', ''mono'', ''monospace'', ''cmtt''] norm then ''mono''
                      else if any_in [''times'', ''serif'', ''roman'', ''georgia'', ''garamond'',
                                      ''cambria'', ''palatino'', ''constantia'', ''cmr'', ''cmbx'',
                                      ''cmti'', ''cmsl'', ''cmu''] norm then ''serif''
                      else ''sans'');
               key = (is_bold, is_italic);
               table = (if fam = ''serif'' then serif_table
                        else if fam = ''mono'' then mono_table else sans_table)
           in first_existing env (table key)))"

text \<open>
  The locations that the resolver consults for a font, in the order in which it
  tests them: for a Computer Modern name the Computer Modern paths, and then on
  Windows the one file of the recognised family (none for another family), on any
  other system the three files of the family table for the weight and slant.
\<close>

definition consulted_paths :: "os_env \<Rightarrow> string \<Rightarrow> bool option \<Rightarrow> bool option \<Rightarrow> string list" where
  "consulted_paths env fontname bold italic =
     (let norm = normalize_fontname fontname;
          is_bold = (case bold of Some b \<Rightarrow> b | None \<Rightarrow> fst (infer_bold_italic (py_lower fontname)));
          is_italic = (case italic of Some i \<Rightarrow> i | None \<Rightarrow> snd (infer_bold_italic (py_lower fontname)))
      in if norm = [] then []
      else
        (if any_in [''cmr'', ''cmbx'', ''cmti'', ''cmsl'', ''cmu''] norm
         then computer_modern_paths env is_bold is_italic else [])
        @ (if os_name env = ''nt'' then
             (if any_in [''times'', ''newroman'', ''timesnewroman''] norm then
                [windows_font_file env
                   (style_file is_bold is_italic ''timesbi.ttf'' ''timesbd.ttf'' ''timesi.ttf'' ''times.ttf'')]
              else if any_in [''arial'', ''helvetica''] norm then
                [windows_font_file env
                   (style_file is_bold is_italic ''arialbi.ttf'' ''arialbd.ttf'' ''ariali.ttf'' ''arial.ttf'')]
              else if py_in ''calibri'' norm then
                [windows_font_file env
                   (style_file is_bold is_italic ''calibriz.ttf'' ''calibrib.ttf'' ''calibrii.ttf''
                      ''calibri.ttf'')]
              else [])
           else if any_in [''courier'', ''mono'', ''monospace'', ''cmtt''] norm
             then mono_table (is_bold, is_italic)
           else if any_in [''times'', ''serif'', ''roman'', ''georgia'', ''garamond'', ''cambria'',
                           ''palatino'', ''constantia'', ''cmr'', ''cmbx'', ''cmti'', ''cmsl'', ''cmu'']
                     norm
             then serif_table (is_bold, is_italic)
           else sans_table (is_bold, is_italic)))"

text \<open>
  The last tier of \<open>_find_replace_core\<close> for one match: the loop over
  \<open>(style.fontname, mapped_font, "helv")\<close> that skips an empty candidate, tries
  \<open>_insert_text_fit\<close> with the candidate as font name and stops at the first
  insertion that does not raise. The insertion is a parameter: it tells for a
  font name whether the call returns. The result is the name that was used, or
  \<open>None\<close> when every insertion raised and the match is left without text.
\<close>

fun try_candidates :: "(string \<Rightarrow> bool) \<Rightarrow> string option list \<Rightarrow> string option" where
  "try_candidates insert_text_fit [] = None"
| "try_candidates insert_text_fit (candidate # rest) =
     (case candidate of None \<Rightarrow> try_candidates insert_text_fit rest
      | Some name \<Rightarrow>
          if name = [] then try_candidates insert_text_fit rest
          else if insert_text_fit name then Some name
          else try_candidates insert_text_fit rest)"

definition builtin_tier :: "(string \<Rightarrow> bool) \<Rightarrow> string option \<Rightarrow> string option" where
  "builtin_tier insert_text_fit style_fontname =
     (let mapped_font = map_font_to_base14 (case style_fontname of None \<Rightarrow> [] | Some n \<Rightarrow> n)
      in try_candidates insert_text_fit [style_fontname, mapped_font, Some ''helv''])"

text \<open>
  The font tiers that \<open>_find_replace_core\<close> walks through for one match. The
  record holds the local variables the tiers test: the resolved font files (each
  may be \<open>None\<close> or empty) and the three flags. Each tier before the last is a
  guarded \<open>try\<close> block that ends the match when it completes and falls through
  when it raises; whether the block of a tier completes is a parameter. The
  result names the tier that rendered the match, or is \<open>None\<close> when none did.
\<close>

datatype used_source =
  Embedded | Windows | EmbeddedLastResort | WindowsFallback | System | Builtin string

record match_fonts =
  embedded_fontfile :: "string option"
  forced_windows :: "string option"
  windows_fontfile :: "string option"
  system_fontfile :: "string option"
  can_use_embedded :: bool
  prefer_full_font :: bool
  introduces_new :: bool

definition truthy :: "string option \<Rightarrow> bool" where
  "truthy v = (v \<noteq> None \<and> v \<noteq> Some [])"

definition insert_match ::
  "(used_source \<Rightarrow> bool) \<Rightarrow> (string \<Rightarrow> bool) \<Rightarrow> match_fonts \<Rightarrow> string option \<Rightarrow> used_source option" where
  "insert_match tier_completes insert_text_fit m style_fontname =
     (if truthy (embedded_fontfile m) \<and> \<not> truthy (forced_windows m) \<and> can_use_embedded m
          \<and> \<not> prefer_full_font m \<and> tier_completes Embedded
      then Some Embedded
      else if truthy (windows_fontfile m)
          \<and> (truthy (forced_windows m) \<or> prefer_full_font m \<or> introduces_new m
               \<or> \<not> truthy (embedded_fontfile m) \<or> \<not> can_use_embedded m)
          \<and> tier_completes Windows
      then Some Windows
      else if truthy (embedded_fontfile m) \<and> tier_completes EmbeddedLastResort
      then Some EmbeddedLastResort
      else if truthy (windows_fontfile m) \<and> tier_completes WindowsFallback
      then Some WindowsFallback
      else if truthy (system_fontfile m) \<and> tier_completes System
      then Some System
      else map_option Builtin (builtin_tier insert_text_fit style_fontname))"

text \<open>
  A Linux host without any font file, for concrete evaluation: paths are joined
  with a slash, and no path is a file.
\<close>

definition bare_linux :: os_env where
  "bare_linux =
     \<lparr>os_name = ''posix'', environ = (\<lambda>_. None), isfile = (\<lambda>_. False),
      isabs = (\<lambda>p. starts_with p ''/''), path_join = (\<lambda>a b. a @ ''/'' @ b),
      extra_font_dirs = [], bundled_fonts_dir = None\<rparr>"

text \<open>The same host with the bold Liberation Sans installed.\<close>

definition linux_with_liberation :: os_env where
  "linux_with_liberation =
     bare_linux\<lparr>isfile :=
       (\<lambda>p. p = ''/usr/share/fonts/truetype/liberation/LiberationSans-Bold.ttf'')\<rparr>"

section \<open>Properties of the page collection operations\<close>

lemma reorder_loop_Inr_iff:
  "reorder_loop m pc parts result seen = Inr ord \<longleftrightarrow>
     (list_all (entry_ok m pc) parts \<and> distinct (map (entry_idx m) parts) \<and>
      (\<forall>p\<in>set parts. entry_idx m p \<notin> seen) \<and> ord = result @ map (entry_idx m) parts)"
proof (induction parts arbitrary: result seen)
  case Nil
  then show ?case by auto
next
  case (Cons p ps)
  show ?case
  proof (cases "py_int m p")
    case None
    then show ?thesis by (simp add: parse_positive_int_def entry_ok_def)
  next
    case (Some k)
    then show ?thesis
      using Cons.IH[of "result @ [k - 1]" "insert (k - 1) seen"]
      by (auto simp: parse_positive_int_def entry_ok_def entry_idx_def Let_def)
  qed
qed

lemma add_range_Inr:
  "add_range pc xs S = Inr S' \<Longrightarrow> S' = S \<union> (\<lambda>k. k - 1) ` set xs \<and> (\<forall>k\<in>set xs. 1 \<le> k \<and> k \<le> int pc)"
  by (induction xs arbitrary: S) (auto simp: Let_def split: if_splits)

lemma add_range_bounds:
  "add_range pc xs S = Inr S' \<Longrightarrow> S \<subseteq> {0..<int pc} \<Longrightarrow> S' \<subseteq> {0..<int pc}"
proof (induction xs arbitrary: S)
  case Nil
  then show ?case by simp
next
  case (Cons k ks)
  from Cons.prems(1) have k: "0 \<le> k - 1" "k - 1 < int pc"
    and rest: "add_range pc ks (insert (k - 1) S) = Inr S'"
    by (auto simp: Let_def split: if_splits)
  from k Cons.prems(2) have "insert (k - 1) S \<subseteq> {0..<int pc}" by auto
  with Cons.IH rest show ?case by blast
qed

lemma parse_positive_int_Inr: "parse_positive_int m v name = Inr k \<Longrightarrow> 0 < k"
  by (auto simp: parse_positive_int_def split: option.splits if_splits)

lemma ranges_loop_bounds:
  "ranges_loop m pc parts S = Inr S' \<Longrightarrow> S \<subseteq> {0..<int pc} \<Longrightarrow> S' \<subseteq> {0..<int pc}"
proof (induction parts arbitrary: S)
  case Nil
  then show ?case by simp
next
  case (Cons part parts)
  show ?case
  proof (cases "CHR ''-'' \<in> set part")
    case True
    obtain s e where se: "py_split1 CHR ''-'' part = (s, e)" by (cases "py_split1 CHR ''-'' part")
    from Cons.prems(1) True se obtain a b S1 where
      ab: "add_range pc [a..b] S = Inr S1" and rest: "ranges_loop m pc parts S1 = Inr S'"
      by (auto split: sum.splits if_splits)
    from add_range_bounds[OF ab Cons.prems(2)] have "S1 \<subseteq> {0..<int pc}" .
    with Cons.IH rest show ?thesis by blast
  next
    case False
    with Cons.prems(1) obtain k where
      k: "1 \<le> k" "k \<le> int pc" and rest: "ranges_loop m pc parts (insert (k - 1) S) = Inr S'"
      by (auto simp: Let_def not_less split: sum.splits if_splits)
    from k Cons.prems(2) have "insert (k - 1) S \<subseteq> {0..<int pc}" by auto
    with Cons.IH rest show ?thesis by blast
  qed
qed

lemma parse_page_ranges_bounds:
  "parse_page_ranges m pages n = Inr S \<Longrightarrow> S \<subseteq> {0..<int n}"
  by (auto simp: parse_page_ranges_def Let_def split: if_splits dest!: ranges_loop_bounds)

lemma remove_fold:
  "foldl (\<lambda>out idx. if int idx \<in> S then out else insert_pdf out src (int idx)) acc xs
     = acc @ map (\<lambda>i. src ! i) (filter (\<lambda>i. int i \<notin> S) xs)"
  by (induction xs arbitrary: acc) (auto simp: insert_pdf_def)

lemma kept_count:
  assumes "S \<subseteq> {0..<int n}"
  shows "length (filter (\<lambda>i. int i \<notin> S) [0..<n]) = n - card S"
proof -
  have fin: "finite S" using assms by (rule finite_subset) simp
  have "S = int ` {i. i < n \<and> int i \<in> S}"
  proof
    show "S \<subseteq> int ` {i. i < n \<and> int i \<in> S}"
    proof
      fix x assume x: "x \<in> S"
      with assms have "0 \<le> x" "x < int n" by auto
      then have "nat x < n" "int (nat x) = x" by auto
      with x show "x \<in> int ` {i. i < n \<and> int i \<in> S}" by force
    qed
  qed auto
  then have "card S = card (int ` {i. i < n \<and> int i \<in> S})" by simp
  also have "\<dots> = card {i. i < n \<and> int i \<in> S}" by (rule card_image) (simp add: inj_on_def)
  finally have cS: "card S = card {i. i < n \<and> int i \<in> S}" .
  have "length (filter (\<lambda>i. int i \<notin> S) [0..<n]) = card (set (filter (\<lambda>i. int i \<notin> S) [0..<n]))"
    by (rule distinct_card[symmetric]) simp
  also have "set (filter (\<lambda>i. int i \<notin> S) [0..<n]) = {0..<n} - {i. i < n \<and> int i \<in> S}" by auto
  also have "card \<dots> = card {0..<n} - card {i. i < n \<and> int i \<in> S}"
    by (rule card_Diff_subset) auto
  finally show ?thesis using cS by simp
qed

text \<open>
  When the page-range string parses and at least one page is kept, \<open>remove_pages\<close>
  returns the serialised form of a document with as many pages as the source
  minus the size of the excluded index set, and its pages are the pages of the
  source whose index is not excluded, in their original order. When every page is
  excluded, the serialiser raises.
\<close>

lemma remove_pages_kept:
  fixes src :: "'p list"
  assumes "parse_page_ranges m pages (length src) = Inr to_remove"
  defines "kept \<equiv> map (\<lambda>i. src ! i) (filter (\<lambda>i. int i \<notin> to_remove) [0..<length src])"
  shows "length kept = length src - card to_remove"
    and "remove_pages m serialise src pages
           = (if card to_remove = length src then Inl ValueError else Inr (serialise kept))"
proof -
  from kept_count[OF parse_page_ranges_bounds[OF assms(1)]]
  show l: "length kept = length src - card to_remove" by (simp add: kept_def)
  have "card to_remove \<le> length src"
  proof -
    have "card to_remove \<le> card {0..<int (length src)}"
      by (rule card_mono) (simp_all add: parse_page_ranges_bounds[OF assms(1)])
    then show ?thesis by simp
  qed
  with l have "(kept = []) = (card to_remove = length src)" by auto
  with assms(1) show "remove_pages m serialise src pages
           = (if card to_remove = length src then Inl ValueError else Inr (serialise kept))"
    by (simp add: remove_pages_def remove_fold tobytes_def kept_def)
qed

text \<open>
  Claim C8. The page range \<open>1-3\<close> is a valid range of a document of three pages: it
  parses to the index set \<open>{0, 1, 2}\<close>. For it \<open>remove_pages\<close> does not return a
  document of \<open>3 - 3 = 0\<close> pages: the call ends in the \<open>ValueError\<close> of the library's
  serialiser, which is not a \<open>PdfOpError\<close>.
\<close>

theorem remove_pages_all_excluded:
  "parse_page_ranges 4300 ''1-3'' (length [''a'', ''b'', ''c'']) = Inr {0, 1, 2}
   \<and> remove_pages 4300 (\<lambda>out. out) [''a'', ''b'', ''c''] ''1-3'' = Inl ValueError"
proof -
  have p: "parse_page_ranges 4300 ''1-3'' (length [''a'', ''b'', ''c'']) = Inr {0, 1, 2}"
    by code_simp
  have c: "card {0, 1, 2 :: int} = length [''a'', ''b'', ''c'']" by simp
  from remove_pages_kept(2)[OF p, of "\<lambda>out. out"] p c show ?thesis by simp
qed

lemma distinct_entry_idx:
  "list_all (entry_ok m n) parts \<Longrightarrow>
     distinct (map (entry_idx m) parts) = distinct (map (py_int m) parts)"
proof (induction parts)
  case Nil
  then show ?case by simp
next
  case (Cons p ps)
  have "entry_idx m p \<in> entry_idx m ` set ps \<longleftrightarrow> py_int m p \<in> py_int m ` set ps"
  proof -
    have "\<And>q. q \<in> set ps \<Longrightarrow> (entry_idx m p = entry_idx m q) = (py_int m p = py_int m q)"
    proof -
      fix q assume "q \<in> set ps"
      with Cons.prems have "entry_ok m n q" "entry_ok m n p" by (auto simp: list_all_iff)
      then show "(entry_idx m p = entry_idx m q) = (py_int m p = py_int m q)"
        by (auto simp: entry_ok_def entry_idx_def split: option.splits)
    qed
    then show ?thesis by (auto simp: image_iff)
  qed
  with Cons show ?case by simp
qed

lemma py_strip_Nil: "py_strip [] = []"
  by (simp add: py_strip_def)

lemma parse_reorder_Inr_iff:
  "parse_reorder m order n = Inr page_order \<longleftrightarrow>
     (0 < n \<and> valid_permutation (order_entries m order) n
      \<and> page_order = map (\<lambda>e. the e - 1) (order_entries m order))"
proof (cases "py_strip order = []")
  case True
  then show ?thesis
    by (auto simp: parse_reorder_def valid_permutation_def order_entries_def comma_parts_def py_strip_Nil)
next
  case False
  have a: "list_all (\<lambda>e. case e of None \<Rightarrow> False | Some k \<Rightarrow> 1 \<le> k \<and> k \<le> int n) (map (py_int m) ps)
        = list_all (entry_ok m n) ps" for ps
    by (simp add: list_all_iff entry_ok_def)
  have b: "map (\<lambda>e. the e - 1) (map (py_int m) ps) = map (entry_idx m) ps" for ps
    by (simp add: entry_idx_def)
  show ?thesis using False distinct_entry_idx[of m n "comma_parts (py_strip order)"]
    by (auto simp: parse_reorder_def valid_permutation_def order_entries_def Let_def
        reorder_loop_Inr_iff a entry_idx_def)
qed

lemma reorder_fold:
  "foldl (\<lambda>out idx. insert_pdf out src idx) acc page_order = acc @ map (\<lambda>idx. src ! nat idx) page_order"
  by (induction page_order arbitrary: acc) (auto simp: insert_pdf_def)

lemma valid_permutation_facts:
  assumes "valid_permutation entries n"
  defines "page_order \<equiv> map (\<lambda>e. the e - 1) entries"
  shows "length page_order = n" "distinct page_order"
    "\<forall>idx\<in>set page_order. 0 \<le> idx \<and> idx < int n"
proof -
  from assms show "length page_order = n" by (simp add: valid_permutation_def)
  have ok: "\<And>e. e \<in> set entries \<Longrightarrow> \<exists>k. e = Some k \<and> 1 \<le> k \<and> k \<le> int n"
    using assms(1) by (auto simp: valid_permutation_def list_all_iff split: option.splits)
  have "inj_on (\<lambda>e. the e - 1) (set entries)"
  proof (rule inj_onI)
    fix x y assume "x \<in> set entries" "y \<in> set entries" "the x - 1 = the y - (1::int)"
    with ok[of x] ok[of y] show "x = y" by auto
  qed
  with assms show "distinct page_order" by (simp add: valid_permutation_def distinct_map)
  show "\<forall>idx\<in>set page_order. 0 \<le> idx \<and> idx < int n"
  proof
    fix idx assume "idx \<in> set page_order"
    then obtain e where "e \<in> set entries" "idx = the e - 1" by (auto simp: page_order_def)
    with ok[of e] show "0 \<le> idx \<and> idx < int n" by auto
  qed
qed

text \<open>
  Claim C2. When \<open>parse_reorder\<close> yields an order, that order is a permutation of
  the page indices and page \<open>i\<close> of the document that \<open>reorder_pages\<close> serialises
  is page \<open>order[i]\<close> of the source; every order string whose entries form a valid
  permutation of a non-empty document is parsed so; and an order string with a
  duplicate, an entry out of range or the wrong number of entries makes
  \<open>reorder_pages\<close> raise \<open>PdfOpError\<close>, so no document is produced.
\<close>

theorem reorder_pages_bijection:
  fixes src :: "'p list"
  shows "(parse_reorder m order (length src) = Inr page_order \<longrightarrow>
            length page_order = length src \<and> distinct page_order
            \<and> (\<forall>idx\<in>set page_order. 0 \<le> idx \<and> idx < int (length src))
            \<and> (\<exists>out. reorder_pages m serialise src order = Inr (serialise out)
                  \<and> length out = length src
                  \<and> (\<forall>i<length src. out ! i = src ! nat (page_order ! i))))
       \<and> (src \<noteq> [] \<and> valid_permutation (order_entries m order) (length src) \<longrightarrow>
            parse_reorder m order (length src) = Inr (map (\<lambda>e. the e - 1) (order_entries m order)))
       \<and> (\<not> valid_permutation (order_entries m order) (length src) \<longrightarrow>
            (\<exists>e. reorder_pages m serialise src order = Inl (PdfOp e)))"
proof (intro conjI impI)
  assume p: "parse_reorder m order (length src) = Inr page_order"
  then have v: "valid_permutation (order_entries m order) (length src)"
    and po: "page_order = map (\<lambda>e. the e - 1) (order_entries m order)"
    and ne: "0 < length src"
    by (simp_all add: parse_reorder_Inr_iff)
  from valid_permutation_facts[OF v] po
  show l: "length page_order = length src" and "distinct page_order"
    and "\<forall>idx\<in>set page_order. 0 \<le> idx \<and> idx < int (length src)" by simp_all
  from l ne have "page_order \<noteq> []" by auto
  with l p show "\<exists>out. reorder_pages m serialise src order = Inr (serialise out)
                  \<and> length out = length src
                  \<and> (\<forall>i<length src. out ! i = src ! nat (page_order ! i))"
    by (intro exI[of _ "map (\<lambda>idx. src ! nat idx) page_order"])
       (simp add: reorder_pages_def reorder_fold tobytes_def)
next
  assume "src \<noteq> [] \<and> valid_permutation (order_entries m order) (length src)"
  then show "parse_reorder m order (length src)
      = Inr (map (\<lambda>e. the e - 1) (order_entries m order))"
    by (simp add: parse_reorder_Inr_iff)
next
  assume "\<not> valid_permutation (order_entries m order) (length src)"
  then have "\<And>po. parse_reorder m order (length src) \<noteq> Inr po"
    by (simp add: parse_reorder_Inr_iff)
  then show "\<exists>e. reorder_pages m serialise src order = Inl (PdfOp e)"
    by (cases "parse_reorder m order (length src)") (auto simp: reorder_pages_def)
qed

theorem reorder_pages_bijection_witness:
  "parse_reorder 4300 ''3, 1,2'' (length [''a'', ''b'', ''c'']) = Inr [2, 0, 1]
   \<and> reorder_pages 4300 (\<lambda>out. out) [''a'', ''b'', ''c''] ''3, 1,2'' = Inr [''c'', ''a'', ''b'']
   \<and> valid_permutation (order_entries 4300 ''3, 1,2'') (length [''a'', ''b'', ''c''])
   \<and> \<not> valid_permutation (order_entries 4300 ''1,1,2'') (length [''a'', ''b'', ''c''])
   \<and> reorder_pages 4300 (\<lambda>out. out) [''a'', ''b'', ''c''] ''1,1,2'' = Inl (PdfOp OrderDuplicates)"
proof -
  have p: "parse_reorder 4300 ''3, 1,2'' (length [''a'', ''b'', ''c'']) = Inr [2, 0, 1]"
    by code_simp
  have v: "valid_permutation (order_entries 4300 ''3, 1,2'') (length [''a'', ''b'', ''c''])"
    by code_simp
  have n: "\<not> valid_permutation (order_entries 4300 ''1,1,2'') (length [''a'', ''b'', ''c''])"
    by code_simp
  have d: "reorder_pages 4300 (\<lambda>out. out) [''a'', ''b'', ''c''] ''1,1,2'' = Inl (PdfOp OrderDuplicates)"
    by code_simp
  have r: "reorder_pages 4300 (\<lambda>out. out) [''a'', ''b'', ''c''] ''3, 1,2'' = Inr [''c'', ''a'', ''b'']"
    by code_simp
  from reorder_pages_bijection[of 4300 "''3, 1,2''" "[''a'', ''b'', ''c'']" "[2, 0, 1]" "\<lambda>out. out"]
    p v n d r
  show ?thesis by simp
qed

section \<open>Properties of the case normalisation\<close>

lemma filter_dropWhile_disjoint:
  "(\<And>x. Q x \<Longrightarrow> \<not> P x) \<Longrightarrow> filter P (dropWhile Q xs) = filter P xs"
  by (induction xs) auto

lemma alpha_not_space: "py_isalpha c \<Longrightarrow> \<not> py_isspace c"
  by (auto simp: py_isalpha_def py_isupper_def py_islower_def py_isspace_def Let_def)

lemma filter_alpha_strip: "filter py_isalpha (py_strip s) = filter py_isalpha s"
proof -
  have "filter py_isalpha (py_strip s)
      = rev (filter py_isalpha (dropWhile py_isspace (rev (dropWhile py_isspace s))))"
    by (simp add: py_strip_def rev_filter)
  also have "\<dots> = rev (filter py_isalpha (rev (dropWhile py_isspace s)))"
    using alpha_not_space by (subst filter_dropWhile_disjoint) auto
  also have "\<dots> = filter py_isalpha (dropWhile py_isspace s)"
    by (simp add: rev_filter)
  also have "\<dots> = filter py_isalpha s"
    using alpha_not_space by (subst filter_dropWhile_disjoint) auto
  finally show ?thesis .
qed

lemma re_split_ws_acc_nonspace:
  "filter (\<lambda>c. \<not> py_isspace c) (concat (re_split_ws_acc cur f s))
     = filter (\<lambda>c. \<not> py_isspace c) (rev cur @ s)"
  by (induction cur f s rule: re_split_ws_acc.induct) auto

lemma words_nonempty:
  assumes "filter py_isalpha s \<noteq> []"
  shows "filter (\<lambda>w. w \<noteq> []) (re_split_ws s) \<noteq> []"
proof -
  from assms obtain c where "c \<in> set s" "py_isalpha c"
    by (auto simp: filter_empty_conv)
  then have "filter (\<lambda>c. \<not> py_isspace c) s \<noteq> []"
    using alpha_not_space by (auto simp: filter_empty_conv)
  then have "filter (\<lambda>c. \<not> py_isspace c) (concat (re_split_ws s)) \<noteq> []"
    by (simp add: re_split_ws_def re_split_ws_acc_nonspace)
  then have "concat (re_split_ws s) \<noteq> []" by (cases "concat (re_split_ws s)") simp_all
  then obtain w where "w \<in> set (re_split_ws s)" "w \<noteq> []" by auto
  then show ?thesis by (auto simp: filter_empty_conv)
qed

lemma first_letter_split:
  "dropWhile (\<lambda>ch. \<not> py_isalpha ch) w = c # r \<Longrightarrow>
     find py_isalpha w = Some c \<and> drop (py_index w c + 1) w = r \<and> filter py_isalpha w \<noteq> []"
proof (induction w)
  case Nil
  then show ?case by simp
next
  case (Cons x xs)
  show ?case
  proof (cases "py_isalpha x")
    case True
    with Cons.prems show ?thesis by (simp add: py_index_def)
  next
    case False
    with Cons.prems have d: "dropWhile (\<lambda>ch. \<not> py_isalpha ch) xs = c # r" by simp
    then have "py_isalpha c" using hd_dropWhile[of "\<lambda>ch. \<not> py_isalpha ch" xs] by auto
    with False have "x \<noteq> c" by auto
    with Cons.IH[OF d] False show ?thesis by (simp add: py_index_def)
  qed
qed

lemma no_letter_dropWhile:
  "(dropWhile (\<lambda>ch. \<not> py_isalpha ch) w = []) = (filter py_isalpha w = [])"
  by (induction w) auto

lemma is_title_word_eq: "is_title_word w = first_upper_rest_lower w"
proof (cases "dropWhile (\<lambda>ch. \<not> py_isalpha ch) w")
  case Nil
  from Nil have f: "filter py_isalpha w = []" by (simp add: no_letter_dropWhile)
  show ?thesis
    unfolding is_title_word_def first_upper_rest_lower_def Nil f by simp
next
  case (Cons c r)
  from first_letter_split[OF Cons] Cons show ?thesis
    by (auto simp: is_title_word_def first_upper_rest_lower_def list_all_iff)
qed

text \<open>
  Claim C3, as the code has it. The replacement is returned unchanged when it is
  empty or the original has no letter. Otherwise it is uppercased when every
  letter of the original is uppercase, else lowercased when every letter is
  lowercase, else title-cased when in every whitespace-separated word of the
  original the first letter (if the word has one) is uppercase and every letter
  after it is lowercase, and unchanged in every other case. The three examples of
  the specification hold.
\<close>

theorem match_replacement_case_patterns:
  "match_replacement_case original replacement =
     (let letters = filter py_isalpha original;
          words = filter (\<lambda>w. w \<noteq> []) (re_split_ws (py_strip original)) in
      if replacement = [] \<or> letters = [] then codepoints replacement
      else if list_all py_isupper letters then py_upper replacement
      else if list_all py_islower letters then codepoints (py_lower replacement)
      else if list_all first_upper_rest_lower words then py_title replacement
      else codepoints replacement)
   \<and> match_replacement_case ''RESUME'' ''summary'' = codepoints ''SUMMARY''
   \<and> match_replacement_case ''Jane Doe'' ''john smith'' = codepoints ''John Smith''
   \<and> match_replacement_case ''hello'' ''WORLD'' = codepoints ''world''"
proof (intro conjI)
  have e: "list_all is_title_word ws = list_all first_upper_rest_lower ws" for ws
    by (simp add: list_all_iff is_title_word_eq)
  have n: "py_strip original = [] \<Longrightarrow> filter py_isalpha original = []"
    using filter_alpha_strip[of original] by simp
  show "match_replacement_case original replacement =
     (let letters = filter py_isalpha original;
          words = filter (\<lambda>w. w \<noteq> []) (re_split_ws (py_strip original)) in
      if replacement = [] \<or> letters = [] then codepoints replacement
      else if list_all py_isupper letters then py_upper replacement
      else if list_all py_islower letters then codepoints (py_lower replacement)
      else if list_all first_upper_rest_lower words then py_title replacement
      else codepoints replacement)"
    using words_nonempty[of "py_strip original"] n
    by (auto simp: match_replacement_case_def Let_def filter_alpha_strip e)
  show "match_replacement_case ''RESUME'' ''summary'' = codepoints ''SUMMARY''" by code_simp
  show "match_replacement_case ''Jane Doe'' ''john smith'' = codepoints ''John Smith''" by code_simp
  show "match_replacement_case ''hello'' ''WORLD'' = codepoints ''world''" by code_simp
qed

theorem match_replacement_case_patterns_witness:
  "list_all first_upper_rest_lower (filter (\<lambda>w. w \<noteq> []) (re_split_ws (py_strip ''Dr. Jane'')))
   \<and> match_replacement_case ''Dr. Jane'' ''mr. john'' = codepoints ''Mr. John''"
proof -
  have a: "list_all first_upper_rest_lower
             (filter (\<lambda>w. w \<noteq> []) (re_split_ws (py_strip ''Dr. Jane'')))"
    by code_simp
  have b: "py_title ''mr. john'' = codepoints ''Mr. John''" by code_simp
  have c: "\<not> list_all py_isupper (filter py_isalpha ''Dr. Jane'')"
    "\<not> list_all py_islower (filter py_isalpha ''Dr. Jane'')"
    "filter py_isalpha ''Dr. Jane'' \<noteq> []"
    by code_simp+
  from match_replacement_case_patterns[of "''Dr. Jane''" "''mr. john''"] a b c
  show ?thesis by (simp add: Let_def)
qed

text \<open>
  The same claim as the specification words it fails on the original
  \<open>Jane 42\<close>: its letters are neither all uppercase nor all lowercase, its second
  word does not start with an uppercase letter, and yet the replacement is
  title-cased rather than left as supplied.
\<close>

theorem match_replacement_case_counterexample:
  "\<not> list_all py_isupper (filter py_isalpha ''Jane 42'')
   \<and> \<not> list_all py_islower (filter py_isalpha ''Jane 42'')
   \<and> \<not> list_all spec_title_word (filter (\<lambda>w. w \<noteq> []) (re_split_ws ''Jane 42''))
   \<and> match_replacement_case ''Jane 42'' ''john smith'' = codepoints ''John Smith''
   \<and> match_replacement_case ''Jane 42'' ''john smith'' \<noteq> codepoints ''john smith''"
  by code_simp

section \<open>Properties of the tracking decision\<close>

text \<open>
  Claim C5, as the code has it. Tracking emulation is chosen exactly when the font
  size is at least 12, the replacement is longer than two characters, both
  measured widths are positive, the available width \<open>max(1, rect.width - 1)\<close> is at
  least 1.20 times the replacement's width and at least 1.10 times the original's
  width, the stripped original is not empty, the stripped original and the
  stripped replacement agree on containing whitespace, and the length of the
  stripped replacement divided by the length of the stripped original lies in
  [0.65, 1.35].
\<close>

theorem should_use_distributed_insertion_iff:
  "should_use_distributed_insertion rect original_text replacement_text
       measured_replacement measured_original fontsize
   \<longleftrightarrow>
     (fontsize \<ge> 12
      \<and> length replacement_text > 2
      \<and> measured_replacement > 0
      \<and> max 1 (width rect - 1) / measured_replacement \<ge> 1.20
      \<and> measured_original > 0
      \<and> max 1 (width rect - 1) / measured_original \<ge> 1.10
      \<and> py_strip original_text \<noteq> []
      \<and> list_ex py_isspace (py_strip original_text) = list_ex py_isspace (py_strip replacement_text)
      \<and> 0.65 \<le> real (length (py_strip replacement_text)) / real (length (py_strip original_text))
      \<and> real (length (py_strip replacement_text)) / real (length (py_strip original_text)) \<le> 1.35)"
proof -
  have m: "py_strip original_text \<noteq> [] \<Longrightarrow>
        max 1 (length (py_strip original_text)) = length (py_strip original_text)"
    by (cases "py_strip original_text") simp_all
  show ?thesis
    unfolding should_use_distributed_insertion_def Let_def
    using m by (auto simp: not_less not_le)
qed

theorem should_use_distributed_insertion_iff_witness:
  "should_use_distributed_insertion \<lparr>x0 = 0, y0 = 0, x1 = 201, y1 = 20\<rparr>
     ''JANE DOE'' ''JOHN ROE'' 120 130 14"
proof -
  have s: "py_strip ''JANE DOE'' = ''JANE DOE''" "py_strip ''JOHN ROE'' = ''JOHN ROE''"
    by (simp_all add: py_strip_def py_isspace_def)
  have w: "list_ex py_isspace ''JANE DOE''" "list_ex py_isspace ''JOHN ROE''"
    by (simp_all add: py_isspace_def)
  show ?thesis
    using should_use_distributed_insertion_iff[of "\<lparr>x0 = 0, y0 = 0, x1 = 201, y1 = 20\<rparr>"
        "''JANE DOE''" "''JOHN ROE''" 120 130 14] s w
    by (simp add: width_def)
qed

text \<open>
  The claim as the specification words it fails for a replacement that ends in
  spaces: the length ratio of the strings as given is 6 / 3 = 2, outside
  [0.65, 1.35], while the code compares the stripped lengths, 4 / 3, and answers
  true.
\<close>

theorem should_use_distributed_insertion_counterexample:
  "should_use_distributed_insertion \<lparr>x0 = 0, y0 = 0, x1 = 101, y1 = 20\<rparr> ''abc'' ''abcd  '' 50 50 12
   \<and> \<not> spec_tracking \<lparr>x0 = 0, y0 = 0, x1 = 101, y1 = 20\<rparr> ''abc'' ''abcd  '' 50 50 12"
  by (simp add: should_use_distributed_insertion_def spec_tracking_def width_def py_strip_def py_isspace_def)

section \<open>Properties of the glyph coverage check\<close>

lemma get_font_obj_program:
  assumes "path \<noteq> []"
  shows "(case get_font_obj mk_font (if fontname = [] then ''helv'' else fontname) (Some path)
                (case font_cache of None \<Rightarrow> Map.empty | Some c \<Rightarrow> c) of
            Raises \<Rightarrow> font_program mk_font fontname path font_cache = Raises
          | Returns (f, cache') \<Rightarrow>
              font_program mk_font fontname path font_cache = Returns f
              \<and> font_program mk_font fontname path
                   (case font_cache of None \<Rightarrow> None | Some c \<Rightarrow> Some cache') = Returns f)"
  using assms
  by (auto simp: get_font_obj_def font_program_def font_key_def Let_def
      split: option.splits attempt.splits)

lemma supports_loop_iff:
  assumes "path \<noteq> []"
  shows "fst (supports_loop mk_font fontname (Some path) font_cache text)
     \<longleftrightarrow> (\<forall>ch\<in>set text. \<not> py_isspace ch \<longrightarrow>
            maps_to_glyph (font_program mk_font fontname path font_cache) ch)"
proof (induction "text" arbitrary: font_cache)
  case Nil
  then show ?case by simp
next
  case (Cons ch rest)
  show ?case
  proof (cases "py_isspace ch")
    case True
    with Cons.IH show ?thesis by simp
  next
    case False
    let ?g = "get_font_obj mk_font (if fontname = [] then ''helv'' else fontname) (Some path)
                (case font_cache of None \<Rightarrow> Map.empty | Some c \<Rightarrow> c)"
    show ?thesis
    proof (cases ?g)
      case Raises
      with get_font_obj_program[OF assms, of mk_font fontname font_cache] False show ?thesis
        by (simp add: maps_to_glyph_def)
    next
      case (Returns fc)
      obtain f cache' where fc: "fc = (f, cache')" by (cases fc)
      let ?fc' = "case font_cache of None \<Rightarrow> None | Some c \<Rightarrow> Some cache'"
      from get_font_obj_program[OF assms, of mk_font fontname font_cache] Returns fc
      have p: "font_program mk_font fontname path font_cache = Returns f"
        and p': "font_program mk_font fontname path ?fc' = Returns f" by simp_all
      show ?thesis
      proof (cases "has_glyph f (of_char ch)")
        case Raises
        with False Returns fc p show ?thesis by (simp add: maps_to_glyph_def Let_def)
      next
        case (Returns has)
        with False \<open>?g = Returns fc\<close> fc p p' Cons.IH[of ?fc'] show ?thesis
          by (simp add: maps_to_glyph_def Let_def)
      qed
    qed
  qed
qed

text \<open>
  Claim C6. For a font program given by a font file, the glyph-coverage check
  answers true exactly when every non-whitespace character of the text maps to a
  glyph in the font program; a font that cannot be loaded and a glyph query that
  fails both count as not mapping, so they yield false. The check is a total
  function into the booleans: every failure of the library is a value that the
  loop turns into the answer false.
\<close>

theorem font_supports_text_iff:
  assumes "fontfile = Some path" and "path \<noteq> []"
  shows "fst (font_supports_text mk_font text fontname fontfile font_cache)
     \<longleftrightarrow> (\<forall>ch\<in>set text. \<not> py_isspace ch \<longrightarrow>
            maps_to_glyph (font_program mk_font fontname path font_cache) ch)"
  using assms supports_loop_iff[OF assms(2), of mk_font fontname font_cache "text"]
  by (simp add: font_supports_text_def)

theorem font_supports_text_iff_witness:
  "fst (font_supports_text demo_fonts ''a a'' ''emb'' (Some ''a.ttf'') None)
   \<and> \<not> fst (font_supports_text demo_fonts ''ab'' ''emb'' (Some ''a.ttf'') None)
   \<and> \<not> fst (font_supports_text demo_fonts ''a'' ''emb'' (Some ''b.ttf'') None)"
proof -
  have ne: "''a.ttf'' \<noteq> []" "''b.ttf'' \<noteq> []" by simp_all
  note t = font_supports_text_iff[OF refl ne(1), of demo_fonts _ "''emb''" None]
    font_supports_text_iff[OF refl ne(2), of demo_fonts _ "''emb''" None]
  show ?thesis
    unfolding t
    by (simp add: maps_to_glyph_def font_program_def demo_fonts_def py_isspace_def)
qed

lemma supports_loop_spaces:
  "list_all py_isspace text \<Longrightarrow> fst (supports_loop mk_font fontname fontfile font_cache text)"
  by (induction "text") auto

text \<open>
  Claim C10. The check answers true without looking at any font when no font file
  path is supplied, or when the text is empty or consists of whitespace only.
\<close>

theorem font_supports_text_unconditional:
  assumes "fontfile = None \<or> fontfile = Some [] \<or> text = [] \<or> list_all py_isspace text"
  shows "fst (font_supports_text mk_font text fontname fontfile font_cache)"
  using assms supports_loop_spaces[of "text" mk_font fontname fontfile font_cache]
  by (auto simp: font_supports_text_def)

theorem font_supports_text_unconditional_witness:
  "fst (font_supports_text demo_fonts ''xyz'' ''Helvetica'' None None)
   \<and> fst (font_supports_text demo_fonts ''  '' ''emb'' (Some ''b.ttf'') None)"
proof -
  have a: "list_all py_isspace ''  ''" by (simp add: py_isspace_def)
  from font_supports_text_unconditional[of None "''xyz''" demo_fonts "''Helvetica''" None]
    font_supports_text_unconditional[of "Some ''b.ttf''" "''  ''" demo_fonts "''emb''" None] a
  show ?thesis by simp
qed


section \<open>Properties of the region merger\<close>

lemma intersects_sym: "intersects a b = intersects b a"
  by (auto simp: intersects_def is_empty_def min.commute max.commute)

lemma same_line_sym: "same_line a b = same_line b a"
  by (simp add: same_line_def Let_def min.commute max.commute abs_minus_commute)

lemma bounding_sym: "bounding a b = bounding b a"
  by (simp add: bounding_def min.commute max.commute)

lemma intersects_overlap:
  "intersects a b \<Longrightarrow> 0 < min (y1 a) (y1 b) - max (y0 a) (y0 b)"
  by (auto simp: intersects_def is_empty_def split: if_splits)

lemma rect_contains_refl: "rect_contains a a"
  by (simp add: rect_contains_def)

lemma rect_contains_trans: "rect_contains c b \<Longrightarrow> rect_contains b a \<Longrightarrow> rect_contains c a"
  by (auto simp: rect_contains_def)

lemma bounding_contains: "rect_contains (bounding a b) a" "rect_contains (bounding a b) b"
  by (auto simp: rect_contains_def bounding_def)

lemma pad_rect_contains: "rect_contains (pad_rect r) r"
  by (auto simp: rect_contains_def pad_rect_def Let_def max_def)

lemma merge_step_Nil: "merge_step [] r = [r]"
  by (simp add: merge_step_def)

lemma merge_step_snoc:
  "merge_step (ms @ [lst]) r =
     (if intersects lst r \<or> same_line lst r then ms @ [bounding lst r] else ms @ [lst, r])"
  by (simp add: merge_step_def Let_def)

lemma merge_step_covers:
  assumes "\<exists>b\<in>set merged. rect_contains b a"
  shows "\<exists>b\<in>set (merge_step merged r). rect_contains b a"
proof (cases merged rule: rev_cases)
  case Nil
  with assms show ?thesis by simp
next
  case (snoc ms lst)
  from assms obtain b where b: "b \<in> set merged" "rect_contains b a" by blast
  show ?thesis
  proof (cases "b = lst")
    case True
    with b(2) bounding_contains(1)[of lst r] have "rect_contains (bounding lst r) a"
      by (blast intro: rect_contains_trans)
    with b True snoc show ?thesis by (auto simp: merge_step_snoc)
  next
    case False
    with b snoc have "b \<in> set ms" by auto
    with b(2) snoc show ?thesis by (auto simp: merge_step_snoc)
  qed
qed

lemma merge_step_covers_new: "\<exists>b\<in>set (merge_step merged r). rect_contains b r"
proof (cases merged rule: rev_cases)
  case Nil
  then show ?thesis by (simp add: merge_step_Nil rect_contains_refl)
next
  case (snoc ms lst)
  then show ?thesis
    using bounding_contains(2)[of lst r] rect_contains_refl[of r]
    by (auto simp: merge_step_snoc)
qed

lemma foldl_merge_covers_old:
  "\<exists>b\<in>set merged. rect_contains b a \<Longrightarrow> \<exists>b\<in>set (foldl merge_step merged rs). rect_contains b a"
  by (induction rs arbitrary: merged) (auto intro: merge_step_covers)

lemma foldl_merge_covers:
  "a \<in> set rs \<Longrightarrow> \<exists>b\<in>set (foldl merge_step merged rs). rect_contains b a"
proof (induction rs arbitrary: merged)
  case Nil
  then show ?case by simp
next
  case (Cons r rs)
  show ?case
  proof (cases "a = r")
    case True
    then show ?thesis using foldl_merge_covers_old[OF merge_step_covers_new] by simp
  next
    case False
    with Cons show ?thesis by simp
  qed
qed

lemma merge_step_length:
  "length (merge_step merged r) \<le> Suc (length merged)" "merge_step merged r \<noteq> []"
  by (cases merged rule: rev_cases; simp add: merge_step_Nil merge_step_snoc)+

lemma foldl_merge_length:
  "length (foldl merge_step merged rs) \<le> length merged + length rs"
proof (induction rs arbitrary: merged)
  case Nil
  then show ?case by simp
next
  case (Cons r rs)
  from Cons.IH[of "merge_step merged r"] merge_step_length(1)[of merged r]
  show ?case by simp
qed

lemma foldl_merge_nonempty:
  "merged \<noteq> [] \<or> rs \<noteq> [] \<Longrightarrow> foldl merge_step merged rs \<noteq> []"
  by (induction rs arbitrary: merged) (auto simp: merge_step_length(2))

lemma set_sort_rects: "set (sort_rects rs) = set rs" "length (sort_rects rs) = length rs"
  by (simp_all add: sort_rects_def)

text \<open>
  Claim C9, as the code has it. When at least one input rectangle is not the
  all-zero rectangle, the merger returns a non-empty list, every input rectangle
  other than the all-zero one is covered by some output rectangle, and there are
  at most as many output rectangles as input rectangles that are not all-zero.
\<close>

theorem merge_close_rects_covers:
  assumes "\<exists>r\<in>set rects. rect_bool r"
  shows "merge_close_rects rects \<noteq> []
       \<and> (\<forall>r\<in>set rects. rect_bool r \<longrightarrow> (\<exists>b\<in>set (merge_close_rects rects). rect_contains b r))
       \<and> length (merge_close_rects rects) \<le> length (filter rect_bool rects)
       \<and> length (merge_close_rects rects) \<le> length rects"
proof -
  let ?cleaned = "sort_rects (filter rect_bool rects)"
  from assms have ne: "rects \<noteq> []" by auto
  then have m: "merge_close_rects rects = map pad_rect (foldl merge_step [] ?cleaned)"
    by (simp add: merge_close_rects_def merged_rects_def)
  from assms have "filter rect_bool rects \<noteq> []" by (auto simp: filter_empty_conv)
  then have "?cleaned \<noteq> []" using set_sort_rects(2)[of "filter rect_bool rects"] by auto
  then have 1: "merge_close_rects rects \<noteq> []"
    using foldl_merge_nonempty[of "[]" ?cleaned] m by simp
  have 2: "\<forall>r\<in>set rects. rect_bool r \<longrightarrow> (\<exists>b\<in>set (merge_close_rects rects). rect_contains b r)"
  proof (intro ballI impI)
    fix r assume "r \<in> set rects" "rect_bool r"
    then have "r \<in> set ?cleaned" by (simp add: set_sort_rects)
    from foldl_merge_covers[OF this, of "[]"]
    obtain b where b: "b \<in> set (foldl merge_step [] ?cleaned)" "rect_contains b r" by blast
    from b(2) pad_rect_contains[of b] have "rect_contains (pad_rect b) r"
      by (blast intro: rect_contains_trans)
    with b(1) m show "\<exists>b\<in>set (merge_close_rects rects). rect_contains b r" by auto
  qed
  have 3: "length (merge_close_rects rects) \<le> length (filter rect_bool rects)"
    using foldl_merge_length[of "[]" ?cleaned] m by (simp add: set_sort_rects)
  moreover have "length (filter rect_bool rects) \<le> length rects" by simp
  ultimately have 4: "length (merge_close_rects rects) \<le> length rects" by linarith
  from 1 2 3 4 show ?thesis by blast
qed

theorem merge_close_rects_covers_witness:
  "rect_bool \<lparr>x0 = 0, y0 = 0, x1 = 10, y1 = 10\<rparr>
   \<and> merge_close_rects [\<lparr>x0 = 0, y0 = 0, x1 = 10, y1 = 10\<rparr>, \<lparr>x0 = 0, y0 = 0, x1 = 0, y1 = 0\<rparr>] \<noteq> []
   \<and> length (merge_close_rects [\<lparr>x0 = 0, y0 = 0, x1 = 10, y1 = 10\<rparr>,
                                    \<lparr>x0 = 0, y0 = 0, x1 = 0, y1 = 0\<rparr>]) \<le> 1"
proof -
  have h: "\<exists>r\<in>set [\<lparr>x0 = 0, y0 = 0, x1 = 10, y1 = 10\<rparr>, \<lparr>x0 = 0, y0 = 0, x1 = 0, y1 = 0\<rparr>]. rect_bool r"
    by (simp add: rect_bool_def)
  from merge_close_rects_covers[OF h] show ?thesis
    by (simp add: rect_bool_def)
qed

text \<open>
  A list that holds only the all-zero rectangle is not empty, and the merger
  returns the empty list for it.
\<close>

theorem merge_close_rects_covers_counterexample:
  "[\<lparr>x0 = 0, y0 = 0, x1 = 0, y1 = 0\<rparr>] \<noteq> []
   \<and> merge_close_rects [\<lparr>x0 = 0, y0 = 0, x1 = 0, y1 = 0\<rparr>] = []"
  by (simp add: merge_close_rects_def merged_rects_def sort_rects_def rect_bool_def)

lemma sort_rects_pair:
  "sort_rects [a, b] = (if (y0 a, x0 a) \<le> (y0 b, x0 b) then [a, b] else [b, a])"
  by (simp add: sort_rects_def)

lemma merged_rects_pair:
  assumes "rect_bool a" "rect_bool b"
  shows "merged_rects [a, b] =
     (if intersects a b \<or> same_line a b then [bounding a b] else sort_rects [a, b])"
proof (cases "(y0 a, x0 a) \<le> (y0 b, x0 b)")
  case True
  then have s: "sort_rects [a, b] = [a, b]" by (simp only: sort_rects_pair if_True)
  have "merged_rects [a, b] = merge_step [a] b"
    using assms by (simp add: merged_rects_def s merge_step_Nil)
  with merge_step_snoc[of "[]" a b] s show ?thesis by simp
next
  case False
  then have s: "sort_rects [a, b] = [b, a]" by (simp only: sort_rects_pair if_False)
  have "merged_rects [a, b] = merge_step [b] a"
    using assms by (simp add: merged_rects_def s merge_step_Nil)
  with merge_step_snoc[of "[]" b a] s intersects_sym[of a b] same_line_sym[of a b] bounding_sym[of a b]
  show ?thesis by simp
qed

lemma sorted_y0_sort_rects: "sorted (map y0 (sort_rects rs))"
proof -
  have "sorted (map (\<lambda>r. (y0 r, x0 r)) (sort_rects rs))"
    by (simp add: sort_rects_def)
  then have "sorted_wrt (\<lambda>p q. (y0 p, x0 p) \<le> (y0 q, x0 q)) (sort_rects rs)"
    by (simp add: sorted_map)
  then have "sorted_wrt (\<lambda>p q. y0 p \<le> y0 q) (sort_rects rs)"
    by (rule sorted_wrt_mono_rel[rotated]) (auto simp: less_eq_prod_def)
  then show ?thesis by (simp add: sorted_map)
qed

lemma foldl_merge_sorted:
  "sorted (map y0 (merged @ rs)) \<Longrightarrow> sorted (map y0 (foldl merge_step merged rs))"
proof (induction rs arbitrary: merged)
  case Nil
  then show ?case by simp
next
  case (Cons r rs)
  have "sorted (map y0 (merge_step merged r @ rs))"
  proof (cases merged rule: rev_cases)
    case Nil
    with Cons.prems show ?thesis by (simp add: merge_step_Nil)
  next
    case (snoc ms lst)
    with Cons.prems have le: "y0 lst \<le> y0 r" by (simp add: sorted_append)
    show ?thesis
    proof (cases "intersects lst r \<or> same_line lst r")
      case True
      from le have "y0 (bounding lst r) = y0 lst" by (simp add: bounding_def)
      moreover from Cons.prems snoc have "sorted (map y0 ms @ y0 lst # map y0 rs)"
        by (auto simp: sorted_append)
      ultimately show ?thesis using True snoc by (simp add: merge_step_snoc)
    next
      case False
      with Cons.prems snoc show ?thesis by (simp add: merge_step_snoc)
    qed
  qed
  from Cons.IH[OF this] show ?case by simp
qed

lemma sorted_y0_merged_rects: "sorted (map y0 (merged_rects rects))"
  using foldl_merge_sorted[of "[]" "sort_rects (filter rect_bool rects)"] sorted_y0_sort_rects
  by (simp add: merged_rects_def)

lemma merged_rects_Nil: "merged_rects [] = []"
  by (simp add: merged_rects_def sort_rects_def)

text \<open>
  Claim C4, as the code has it. For two rectangles, neither of them all-zero: when
  they intersect, or their vertical overlap divided by \<open>max(1, smaller height)\<close> is
  at least 0.3, or their vertical centres differ by less than 0.8 times
  \<open>max(1, smaller height)\<close>, the merger returns one region, the padded bounding box
  of both; otherwise it returns the two rectangles padded, in the \<open>(y0, x0)\<close> order
  of the unpadded rectangles. Rectangles without vertical overlap whose centres
  are more than 0.8 times \<open>max(1, smaller height)\<close> apart stay separate. For every
  input list the output is the padded list of merged regions, and the merged
  regions before padding have non-decreasing \<open>y0\<close>.
\<close>

theorem merge_close_rects_pair:
  assumes "rect_bool a" and "rect_bool b"
  shows "merge_close_rects [a, b] =
           (if intersects a b \<or> same_line a b then [pad_rect (bounding a b)]
            else map pad_rect (sort_rects [a, b]))
       \<and> (same_line a b \<longleftrightarrow>
            max 0 (min (y1 a) (y1 b) - max (y0 a) (y0 b)) / max 1 (min (height a) (height b)) \<ge> 0.3
            \<or> \<bar>(y0 a + y1 a) / 2 - (y0 b + y1 b) / 2\<bar> < 0.8 * max 1 (min (height a) (height b)))
       \<and> (min (y1 a) (y1 b) - max (y0 a) (y0 b) \<le> 0
            \<and> \<bar>(y0 a + y1 a) / 2 - (y0 b + y1 b) / 2\<bar> > 0.8 * max 1 (min (height a) (height b))
            \<longrightarrow> length (merge_close_rects [a, b]) = 2)
       \<and> merge_close_rects rects = map pad_rect (merged_rects rects)
       \<and> sorted (map y0 (merged_rects rects))"
proof (intro conjI impI)
  show p: "merge_close_rects [a, b] =
           (if intersects a b \<or> same_line a b then [pad_rect (bounding a b)]
            else map pad_rect (sort_rects [a, b]))"
    using merged_rects_pair[OF assms] by (simp add: merge_close_rects_def)
  show s: "same_line a b \<longleftrightarrow>
            max 0 (min (y1 a) (y1 b) - max (y0 a) (y0 b)) / max 1 (min (height a) (height b)) \<ge> 0.3
            \<or> \<bar>(y0 a + y1 a) / 2 - (y0 b + y1 b) / 2\<bar> < 0.8 * max 1 (min (height a) (height b))"
    by (auto simp: same_line_def Let_def mult.commute)
  show "merge_close_rects rects = map pad_rect (merged_rects rects)"
    by (simp add: merge_close_rects_def merged_rects_Nil)
  show "sorted (map y0 (merged_rects rects))" by (rule sorted_y0_merged_rects)
  assume h: "min (y1 a) (y1 b) - max (y0 a) (y0 b) \<le> 0
            \<and> \<bar>(y0 a + y1 a) / 2 - (y0 b + y1 b) / 2\<bar> > 0.8 * max 1 (min (height a) (height b))"
  then have "\<not> intersects a b" using intersects_overlap[of a b] by auto
  moreover from h have "max 0 (min (y1 a) (y1 b) - max (y0 a) (y0 b)) = 0" by simp
  with h s have "\<not> same_line a b" by simp
  ultimately show "length (merge_close_rects [a, b]) = 2"
    using p by (simp add: sort_rects_pair)
qed

theorem merge_close_rects_pair_witness:
  "rect_bool \<lparr>x0 = 0, y0 = 0, x1 = 10, y1 = 10\<rparr>
   \<and> rect_bool \<lparr>x0 = 50, y0 = 2, x1 = 60, y1 = 12\<rparr>
   \<and> merge_close_rects [\<lparr>x0 = 50, y0 = 2, x1 = 60, y1 = 12\<rparr>, \<lparr>x0 = 0, y0 = 0, x1 = 10, y1 = 10\<rparr>]
       = [\<lparr>x0 = - 2, y0 = - 1, x1 = 62, y1 = 13\<rparr>]
   \<and> length (merge_close_rects [\<lparr>x0 = 0, y0 = 20, x1 = 10, y1 = 30\<rparr>,
                                    \<lparr>x0 = 0, y0 = 0, x1 = 10, y1 = 10\<rparr>]) = 2"
proof -
  have b: "rect_bool \<lparr>x0 = 0, y0 = 0, x1 = 10, y1 = 10\<rparr>"
    "rect_bool \<lparr>x0 = 50, y0 = 2, x1 = 60, y1 = 12\<rparr>"
    "rect_bool \<lparr>x0 = 0, y0 = 20, x1 = 10, y1 = 30\<rparr>"
    by (simp_all add: rect_bool_def)
  have s: "same_line \<lparr>x0 = 50, y0 = 2, x1 = 60, y1 = 12\<rparr> \<lparr>x0 = 0, y0 = 0, x1 = 10, y1 = 10\<rparr>"
    by (simp add: same_line_def height_def Let_def)
  have p: "pad_rect (bounding \<lparr>x0 = 50, y0 = 2, x1 = 60, y1 = 12\<rparr> \<lparr>x0 = 0, y0 = 0, x1 = 10, y1 = 10\<rparr>)
      = \<lparr>x0 = - 2, y0 = - 1, x1 = 62, y1 = 13\<rparr>"
    by (simp add: pad_rect_def bounding_def height_def Let_def)
  from merge_close_rects_pair[OF b(2) b(1), of "[]", THEN conjunct1] s p
  have 1: "merge_close_rects [\<lparr>x0 = 50, y0 = 2, x1 = 60, y1 = 12\<rparr>, \<lparr>x0 = 0, y0 = 0, x1 = 10, y1 = 10\<rparr>]
       = [\<lparr>x0 = - 2, y0 = - 1, x1 = 62, y1 = 13\<rparr>]"
    by simp
  from merge_close_rects_pair[OF b(3) b(1), of "[]", THEN conjunct2, THEN conjunct2, THEN conjunct1]
  have 2: "length (merge_close_rects [\<lparr>x0 = 0, y0 = 20, x1 = 10, y1 = 30\<rparr>,
                                    \<lparr>x0 = 0, y0 = 0, x1 = 10, y1 = 10\<rparr>]) = 2"
    by (simp add: height_def)
  from b 1 2 show ?thesis by simp
qed

text \<open>
  The claim as the specification words it fails in three ways. A rectangle of
  height 0.5 that overlaps a tall one by 0.2 has an overlap ratio of 0.4 of the
  smaller height, yet the two stay separate. Two rectangles of height 0.5 without
  vertical overlap, whose centres are 0.6 apart, are merged. And for a rectangle
  of height 10 and one of height 200 that starts lower, the padded output is not
  ordered by \<open>(y0, x0)\<close>, because the padding grows with the height.
\<close>

theorem merge_close_rects_pair_counterexample:
  "rect_bool \<lparr>x0 = 0, y0 = 0, x1 = 10, y1 = 0.5\<rparr>
   \<and> rect_bool \<lparr>x0 = 20, y0 = 0.3, x1 = 30, y1 = 100.3\<rparr>
   \<and> spec_same_line \<lparr>x0 = 0, y0 = 0, x1 = 10, y1 = 0.5\<rparr> \<lparr>x0 = 20, y0 = 0.3, x1 = 30, y1 = 100.3\<rparr>
   \<and> length (merge_close_rects [\<lparr>x0 = 0, y0 = 0, x1 = 10, y1 = 0.5\<rparr>,
                                   \<lparr>x0 = 20, y0 = 0.3, x1 = 30, y1 = 100.3\<rparr>]) = 2
   \<and> min 0.5 1.1 - max 0 0.6 \<le> (0 :: real)
   \<and> \<bar>(0 + 0.5) / 2 - (0.6 + 1.1) / 2\<bar> > 0.8 * min (height \<lparr>x0 = 0, y0 = 0, x1 = 10, y1 = 0.5\<rparr>)
                                                        (height \<lparr>x0 = 0, y0 = 0.6, x1 = 10, y1 = 1.1\<rparr>)
   \<and> length (merge_close_rects [\<lparr>x0 = 0, y0 = 0, x1 = 10, y1 = 0.5\<rparr>,
                                   \<lparr>x0 = 0, y0 = 0.6, x1 = 10, y1 = 1.1\<rparr>]) = 1
   \<and> map (\<lambda>r. (y0 r, x0 r)) (merge_close_rects [\<lparr>x0 = 20, y0 = 9, x1 = 30, y1 = 209\<rparr>,
                                                  \<lparr>x0 = 0, y0 = 0, x1 = 10, y1 = 10\<rparr>])
       = [(- 1, - 2), (- 7, - 10)]
   \<and> \<not> sorted [(- 1 :: real, - 2 :: real), (- 7, - 10)]"
  by (simp add: merge_close_rects_def merged_rects_def sort_rects_def rect_bool_def merge_step_def
      intersects_def is_empty_def is_infinite_def same_line_def spec_same_line_def height_def
      pad_rect_def bounding_def Let_def less_eq_prod_def)

section \<open>Properties of the baseline\<close>

text \<open>
  The rectangles that reach \<open>_baseline_point\<close> are the regions of the merger and
  the padded word boxes. Both are padded by at least one unit above and below,
  so for input rectangles with \<open>y0 \<le> y1\<close> they are at least two units high.
\<close>

lemma pad_rect_height: "y0 r \<le> y1 r \<Longrightarrow> 2 \<le> y1 (pad_rect r) - y0 (pad_rect r)"
  by (simp add: pad_rect_def Let_def max_def)

lemma pad_word_rect_height: "y0 r \<le> y1 r \<Longrightarrow> 2 \<le> y1 (pad_word_rect r) - y0 (pad_word_rect r)"
  by (simp add: pad_word_rect_def Let_def max_def)

lemma bounding_upright: "y0 a \<le> y1 a \<Longrightarrow> y0 (bounding a b) \<le> y1 (bounding a b)"
  by (simp add: bounding_def min_def max_def)

lemma merge_step_upright:
  assumes "\<forall>b\<in>set merged. y0 b \<le> y1 b" and "y0 r \<le> y1 r"
  shows "\<forall>b\<in>set (merge_step merged r). y0 b \<le> y1 b"
proof (cases merged rule: rev_cases)
  case Nil
  with assms show ?thesis by (simp add: merge_step_Nil)
next
  case (snoc ms lst)
  with assms bounding_upright[of lst r] show ?thesis
    by (auto simp: merge_step_snoc)
qed

lemma foldl_merge_upright:
  "\<forall>b\<in>set merged. y0 b \<le> y1 b \<Longrightarrow> \<forall>r\<in>set rs. y0 r \<le> y1 r \<Longrightarrow>
     \<forall>b\<in>set (foldl merge_step merged rs). y0 b \<le> y1 b"
proof (induction rs arbitrary: merged)
  case Nil
  then show ?case by simp
next
  case (Cons r rs)
  from Cons.prems have "\<forall>b\<in>set (merge_step merged r). y0 b \<le> y1 b"
    by (intro merge_step_upright) simp_all
  with Cons.IH[of "merge_step merged r"] Cons.prems(2) show ?case by simp
qed

lemma merge_close_rects_height:
  assumes "\<forall>r\<in>set rects. y0 r \<le> y1 r"
  shows "\<forall>b\<in>set (merge_close_rects rects). 2 \<le> y1 b - y0 b"
proof -
  have "\<forall>b\<in>set (merged_rects rects). y0 b \<le> y1 b"
    unfolding merged_rects_def
    using assms by (intro foldl_merge_upright) (simp_all add: set_sort_rects)
  then show ?thesis
    by (auto simp: merge_close_rects_def intro: pad_rect_height)
qed



section \<open>Properties of the font resolution\<close>

lemma find_append_case:
  "find P (xs @ ys) = (case find P xs of None \<Rightarrow> find P ys | Some x \<Rightarrow> Some x)"
  by (induction xs) auto

lemma first_existing_find:
  "\<not> isfile env [] \<Longrightarrow> first_existing env paths = find (isfile env) paths"
proof -
  assume h: "\<not> isfile env []"
  then have "(\<lambda>p. p \<noteq> [] \<and> isfile env p) = isfile env" by auto
  then show ?thesis by (simp add: first_existing_def)
qed

lemma windows_font_path_find:
  "windows_font_path env f = find (isfile env) [windows_font_file env f]"
  by (simp add: windows_font_path_def Let_def)

lemma find_isfile_nonempty:
  "\<not> isfile env [] \<Longrightarrow> find (isfile env) ps \<noteq> Some []"
  by (auto simp: find_Some_iff)

lemma early_return_find:
  assumes "\<not> isfile env []"
  shows "(let cm = find (isfile env) cmps in if cm \<noteq> None \<and> cm \<noteq> Some [] then cm else find (isfile env) plat)
       = find (isfile env) (cmps @ plat)"
  using find_isfile_nonempty[OF assms, of cmps]
  by (cases "find (isfile env) cmps") (simp_all add: find_append_case Let_def)

lemma try_system_fontfile_native_find:
  assumes "\<not> isfile env []"
  shows "try_system_fontfile_native env fontname bold italic
       = find (isfile env) (consulted_paths env fontname bold italic)"
proof (cases "normalize_fontname fontname = []")
  case True
  then show ?thesis
    by (simp add: try_system_fontfile_native_def consulted_paths_def Let_def)
next
  case False
  note fe = first_existing_find[OF assms]
  let ?b = "case bold of Some b \<Rightarrow> b | None \<Rightarrow> fst (infer_bold_italic (py_lower fontname))"
  let ?i = "case italic of Some i \<Rightarrow> i | None \<Rightarrow> snd (infer_bold_italic (py_lower fontname))"
  let ?norm = "normalize_fontname fontname"
  let ?cm = "any_in [''cmr'', ''cmbx'', ''cmti'', ''cmsl'', ''cmu''] ?norm"
  let ?cmps = "if ?cm then computer_modern_paths env ?b ?i else []"
  have cm: "(if ?cm then try_computer_modern_fontfile env ?b ?i else None) = find (isfile env) ?cmps"
    by (simp add: try_computer_modern_fontfile_def fe)
  show ?thesis
  proof (cases "os_name env = ''nt''")
    case True
    let ?plat = "if any_in [''times'', ''newroman'', ''timesnewroman''] ?norm then
                [windows_font_file env
                   (style_file ?b ?i ''timesbi.ttf'' ''timesbd.ttf'' ''timesi.ttf'' ''times.ttf'')]
              else if any_in [''arial'', ''helvetica''] ?norm then
                [windows_font_file env
                   (style_file ?b ?i ''arialbi.ttf'' ''arialbd.ttf'' ''ariali.ttf'' ''arial.ttf'')]
              else if py_in ''calibri'' ?norm then
                [windows_font_file env
                   (style_file ?b ?i ''calibriz.ttf'' ''calibrib.ttf'' ''calibrii.ttf''
                      ''calibri.ttf'')]
              else []"
    have cp: "consulted_paths env fontname bold italic = ?cmps @ ?plat"
      using False True by (simp add: consulted_paths_def Let_def)
    have fn: "try_system_fontfile_native env fontname bold italic
        = (let cm = find (isfile env) ?cmps in
           if cm \<noteq> None \<and> cm \<noteq> Some [] then cm else find (isfile env) ?plat)"
      using False True
      by (simp add: try_system_fontfile_native_def Let_def case_prod_beta cm windows_family_def
            windows_font_path_find)
    show ?thesis unfolding cp fn by (rule early_return_find[OF assms])
  next
    case nnt: False
    let ?plat = "if any_in [''courier'', ''mono'', ''monospace'', ''cmtt''] ?norm
             then mono_table (?b, ?i)
           else if any_in [''times'', ''serif'', ''roman'', ''georgia'', ''garamond'', ''cambria'',
                           ''palatino'', ''constantia'', ''cmr'', ''cmbx'', ''cmti'', ''cmsl'', ''cmu'']
                     ?norm
             then serif_table (?b, ?i)
           else sans_table (?b, ?i)"
    have cp: "consulted_paths env fontname bold italic = ?cmps @ ?plat"
      using False nnt by (simp add: consulted_paths_def Let_def)
    have fn: "try_system_fontfile_native env fontname bold italic
        = (let cm = find (isfile env) ?cmps in
           if cm \<noteq> None \<and> cm \<noteq> Some [] then cm else find (isfile env) ?plat)"
      using False nnt
      by (simp add: try_system_fontfile_native_def Let_def case_prod_beta cm fe)
    show ?thesis unfolding cp fn by (rule early_return_find[OF assms])
  qed
qed

lemma builtin_tier_order:
  "builtin_tier insert_text_fit style_fontname =
     (let mapped_font = map_font_to_base14 (case style_fontname of None \<Rightarrow> [] | Some n \<Rightarrow> n) in
      if truthy style_fontname \<and> insert_text_fit (the style_fontname) then style_fontname
      else if truthy mapped_font \<and> insert_text_fit (the mapped_font) then mapped_font
      else if insert_text_fit ''helv'' then Some ''helv''
      else None)"
  by (auto simp: builtin_tier_def truthy_def Let_def split: option.splits)

lemma builtin_tier_helv:
  "insert_text_fit ''helv'' \<Longrightarrow> builtin_tier insert_text_fit style_fontname \<noteq> None"
  by (auto simp: builtin_tier_order truthy_def Let_def)

text \<open>
  Claim C1, as the code has it. The system font resolver returns the first of the
  locations it consults that is a file, and \<open>None\<close> exactly when none of them is
  one: there is no built-in font path. The built-in tier of the orchestrator
  works by font name: it tries the detected name, then its Base-14 mapping, then
  \<open>helv\<close>, skips an empty candidate and stops at the first insertion that succeeds.
  So a match is rendered whenever the insertion with \<open>helv\<close> succeeds, whatever
  font files were resolved, and a match for which no embedded, Windows or system
  font file was resolved is rendered by exactly this tier.
\<close>

theorem font_resolution_fallback:
  "(\<not> isfile env [] \<longrightarrow>
      try_system_fontfile_native env fontname bold italic
        = find (isfile env) (consulted_paths env fontname bold italic)
      \<and> (try_system_fontfile_native env fontname bold italic = None
           \<longleftrightarrow> (\<forall>p\<in>set (consulted_paths env fontname bold italic). \<not> isfile env p)))
   \<and> builtin_tier insert_text_fit style_fontname =
       (let mapped_font = map_font_to_base14 (case style_fontname of None \<Rightarrow> [] | Some n \<Rightarrow> n) in
        if truthy style_fontname \<and> insert_text_fit (the style_fontname) then style_fontname
        else if truthy mapped_font \<and> insert_text_fit (the mapped_font) then mapped_font
        else if insert_text_fit ''helv'' then Some ''helv''
        else None)
   \<and> (insert_text_fit ''helv'' \<longrightarrow>
         insert_match tier_completes insert_text_fit m style_fontname \<noteq> None)
   \<and> (\<not> truthy (embedded_fontfile m) \<and> \<not> truthy (windows_fontfile m)
        \<and> \<not> truthy (system_fontfile m) \<longrightarrow>
         insert_match tier_completes insert_text_fit m style_fontname
           = map_option Builtin (builtin_tier insert_text_fit style_fontname))"
proof -
  have a: "\<not> isfile env [] \<longrightarrow>
      try_system_fontfile_native env fontname bold italic
        = find (isfile env) (consulted_paths env fontname bold italic)
      \<and> (try_system_fontfile_native env fontname bold italic = None
           \<longleftrightarrow> (\<forall>p\<in>set (consulted_paths env fontname bold italic). \<not> isfile env p))"
    by (auto simp: try_system_fontfile_native_find find_None_iff)
  have c: "insert_text_fit ''helv'' \<longrightarrow>
         insert_match tier_completes insert_text_fit m style_fontname \<noteq> None"
    using builtin_tier_helv[of insert_text_fit style_fontname]
    by (auto simp: insert_match_def)
  have d: "\<not> truthy (embedded_fontfile m) \<and> \<not> truthy (windows_fontfile m)
        \<and> \<not> truthy (system_fontfile m) \<longrightarrow>
         insert_match tier_completes insert_text_fit m style_fontname
           = map_option Builtin (builtin_tier insert_text_fit style_fontname)"
    by (simp add: insert_match_def)
  from a builtin_tier_order[of insert_text_fit style_fontname] c d show ?thesis by blast
qed

theorem font_resolution_fallback_witness:
  "try_system_fontfile_native linux_with_liberation ''Arial-BoldMT'' None None
     = Some ''/usr/share/fonts/truetype/liberation/LiberationSans-Bold.ttf''
   \<and> try_system_fontfile_native bare_linux ''ABCDEE+Calibri'' None None = None
   \<and> builtin_tier (\<lambda>n. n = ''helv'') (Some ''ABCDEE+Calibri'') = Some ''helv''
   \<and> insert_match (\<lambda>_. True) (\<lambda>n. n = ''helv'')
        \<lparr>embedded_fontfile = None, forced_windows = None, windows_fontfile = None,
         system_fontfile = None,
         can_use_embedded = False, prefer_full_font = True, introduces_new = True\<rparr>
        (Some ''ABCDEE+Calibri'') = Some (Builtin ''helv'')"
proof -
  let ?m = "\<lparr>embedded_fontfile = None, forced_windows = None, windows_fontfile = None,
         system_fontfile = None,
         can_use_embedded = False, prefer_full_font = True, introduces_new = True\<rparr>"
  have f: "\<not> isfile linux_with_liberation []" "\<not> isfile bare_linux []"
    by (simp_all add: linux_with_liberation_def bare_linux_def)
  have p1: "consulted_paths linux_with_liberation ''Arial-BoldMT'' None None
     = [''/usr/share/fonts/truetype/dejavu/DejaVuSans-Bold.ttf'',
        ''/usr/share/fonts/truetype/liberation2/LiberationSans-Bold.ttf'',
        ''/usr/share/fonts/truetype/liberation/LiberationSans-Bold.ttf'']"
    by code_simp
  have n2: "\<forall>p\<in>set (consulted_paths bare_linux ''ABCDEE+Calibri'' None None). \<not> isfile bare_linux p"
    by (simp add: bare_linux_def)
  have mp: "map_font_to_base14 ''ABCDEE+Calibri'' = Some ''Helvetica''" by code_simp
  note t1 = font_resolution_fallback[of linux_with_liberation "''Arial-BoldMT''" None None
      "\<lambda>n. n = ''helv''" "Some ''ABCDEE+Calibri''" "\<lambda>_. True" ?m]
  note t2 = font_resolution_fallback[of bare_linux "''ABCDEE+Calibri''" None None
      "\<lambda>n. n = ''helv''" "Some ''ABCDEE+Calibri''" "\<lambda>_. True" ?m]
  from t1 f(1) p1
  have 1: "try_system_fontfile_native linux_with_liberation ''Arial-BoldMT'' None None
     = Some ''/usr/share/fonts/truetype/liberation/LiberationSans-Bold.ttf''"
    by (simp add: linux_with_liberation_def bare_linux_def)
  from t2 f(2) n2
  have 2: "try_system_fontfile_native bare_linux ''ABCDEE+Calibri'' None None = None"
    by blast
  from t2 mp
  have 3: "builtin_tier (\<lambda>n. n = ''helv'') (Some ''ABCDEE+Calibri'') = Some ''helv''"
    by (simp add: truthy_def)
  from t2 3
  have 4: "insert_match (\<lambda>_. True) (\<lambda>n. n = ''helv'') ?m (Some ''ABCDEE+Calibri'')
      = Some (Builtin ''helv'')"
    by (simp add: truthy_def)
  from 1 2 3 4 show ?thesis by simp
qed

text \<open>
  On a host without font files the resolver returns \<open>None\<close> for a bold Arial,
  where the specification promises a path.
\<close>

theorem font_resolution_fallback_counterexample:
  "try_system_fontfile_native bare_linux ''Arial-BoldMT'' (Some True) (Some False) = None"
  by code_simp

end
